theory Spec2Isabelle
  imports Main
begin

section \<open>Values exchanged with the backends\<close>

text \<open>
  The provider composition engine of \<^verbatim>\<open>src/shared/providers.ts\<close> combines three
  backends: the LSIF backend (the precomputed index; "precise" in the specification), an
  optional LSP backend ("protocol") and the search backend ("heuristic").  The telemetry
  names of the source are \<^verbatim>\<open>lsifDefinitions\<close>, \<^verbatim>\<open>lspDefinitions\<close>,
  \<^verbatim>\<open>searchDefinitions\<close> and so on; the specification calls them
  \<^verbatim>\<open>preciseDefinitions\<close>, \<^verbatim>\<open>protocolDefinitions\<close>, \<^verbatim>\<open>heuristicDefinitions\<close>.
\<close>

text \<open>The three parts of a URL that \<^verbatim>\<open>file\<close> reads.\<close>

record uri =
  host :: string
  pathname :: string
  hash :: string

text \<open>
  Modelled from the spec: the constant \<^verbatim>\<open>impreciseBadge\<close> of \<^verbatim>\<open>./badges\<close> is not
  under src/; the specification's badge is "a single imprecision marker".
\<close>

datatype badge = impreciseBadge

text \<open>
  A \<^verbatim>\<open>sourcegraph.Location\<close> with the optional \<^verbatim>\<open>badge\<close> property that
  \<^verbatim>\<open>badgeValues\<close> adds.  The range is start line, start character, end line, end
  character.
\<close>

record location =
  loc_uri :: uri
  loc_range :: "(nat \<times> nat \<times> nat \<times> nat) option"
  loc_badge :: "badge option"

text \<open>
  A value of type \<^verbatim>\<open>T | T[] | null\<close>, as \<^verbatim>\<open>sourcegraph.Definition\<close> is for
  locations.
\<close>

datatype 'a arrayish = Null | Single 'a | Many "'a list"

type_synonym Definition = "location arrayish"

text \<open>A value of type \<^verbatim>\<open>T[] | null\<close> read as a \<^verbatim>\<open>T | T[] | null\<close>.\<close>

fun of_batch :: "'a list option \<Rightarrow> 'a arrayish" where
  "of_batch None = Null"
| "of_batch (Some xs) = Many xs"

text \<open>
  Modelled from the spec: the alert constants of \<^verbatim>\<open>./hover-alerts\<close> are not under
  src/; each is a descriptive tag naming the provenance of a hover.
\<close>

datatype HoverAlert =
  HoverAlerts_lsif
  | HoverAlerts_lsifPartialHoverOnly
  | HoverAlerts_lsifPartialDefinitionOnly
  | HoverAlerts_lsp
  | HoverAlerts_searchLSIFSupportNone
  | HoverAlerts_searchLSIFSupportExperimental
  | HoverAlerts_searchLSIFSupportRobust

text \<open>
  A \<^verbatim>\<open>sourcegraph.Hover\<close>: its contents, which stand for every property the composers
  copy without reading, and its optional \<^verbatim>\<open>alerts\<close> property (\<open>None\<close> when the
  property is absent).
\<close>

record Hover =
  contents :: string
  alerts :: "HoverAlert list option"

text \<open>The interface \<^verbatim>\<open>DefinitionAndHover\<close>; both fields may be null.\<close>

record DefinitionAndHover =
  dh_definition :: Definition
  dh_hover :: "Hover option"

text \<open>
  Modelled from the spec: the enumeration \<^verbatim>\<open>LSIFSupport\<close> of
  \<^verbatim>\<open>./language-specs/spec\<close> is not under src/; the specification lists the
  support levels none, experimental and robust.
\<close>

datatype LSIFSupport = LSIFSupport_None | LSIFSupport_Experimental | LSIFSupport_Robust

section \<open>Helpers of \<^verbatim>\<open>util/helpers\<close>\<close>

text \<open>
  Modelled from the spec: \<^verbatim>\<open>asArray\<close>, \<^verbatim>\<open>nonEmpty\<close> and \<^verbatim>\<open>mapArrayish\<close> are
  imported from \<^verbatim>\<open>./util/helpers\<close>, which is not under src/.  \<^verbatim>\<open>asArray\<close> turns
  null into the empty array and a single value into a one-element array;
  \<^verbatim>\<open>nonEmpty\<close> holds of a single value and of an array with at least one element
  (the specification's "non-empty" result; null and the empty array signal "no result");
  \<^verbatim>\<open>mapArrayish\<close> maps over the value and keeps its shape.
\<close>

fun asArray :: "'a arrayish \<Rightarrow> 'a list" where
  "asArray Null = []"
| "asArray (Single x) = [x]"
| "asArray (Many xs) = xs"

fun nonEmpty :: "'a arrayish \<Rightarrow> bool" where
  "nonEmpty Null = False"
| "nonEmpty (Single x) = True"
| "nonEmpty (Many xs) = (xs \<noteq> [])"

fun mapArrayish :: "'a arrayish \<Rightarrow> ('a \<Rightarrow> 'b) \<Rightarrow> 'b arrayish" where
  "mapArrayish Null fn = Null"
| "mapArrayish (Single x) fn = Single (fn x)"
| "mapArrayish (Many xs) fn = Many (map fn xs)"

text \<open>\<^verbatim>\<open>badgeValues\<close> (providers.ts, lines 434-439): \<^verbatim>\<open>{ ...element, badge }\<close>.\<close>

definition badgeValues :: "location arrayish \<Rightarrow> badge \<Rightarrow> location arrayish" where
  "badgeValues v b = mapArrayish v (\<lambda>element. element\<lparr>loc_badge := Some b\<rparr>)"

text \<open>
  \<^verbatim>\<open>file\<close> (providers.ts, lines 232-233): host, pathname and hash, space separated
  (named \<open>file_of\<close> here, \<open>file\<close> being reserved).
\<close>

definition file_of :: "location \<Rightarrow> string" where
  "file_of l = host (loc_uri l) @ '' '' @ pathname (loc_uri l) @ '' '' @ hash (loc_uri l)"

section \<open>Asynchronous sources\<close>

text \<open>
  A backend is called with the query (document, position and, for references, the
  context), which the composers pass on unchanged.  A single-shot lookup returns a
  promise; it resolves, rejects or stays pending.  A live backend returns an asynchronous
  generator; it is modelled by the values it yields and by how it ends after them: it
  completes, it throws, or it yields nothing more and never completes.  The values are
  finitely many: a generator that yields for ever is represented by its finite prefixes,
  each with the ending \<open>Stalls\<close>, and a caller that stops consuming sees a prefix of
  the events given here.
\<close>

datatype 'a promise = Resolves 'a | Rejects_promise | Pending

datatype ending = Completes | Throws | Stalls

record 'a async_generator =
  items :: "'a list"
  ending :: ending

section \<open>One invocation of a composer\<close>

datatype backend =
  LsifProvider | LspProvider | SearchProvider | SearchDefinitionProvider | SearchHoverProvider

text \<open>
  What an invocation does, in order: it calls a backend, it performs the telemetry side
  effect for an event name, it yields a value to the caller.
\<close>

datatype 'v event = Invoked backend | Emitted string | Yielded 'v

datatype status = Running | Returned | Threw | Awaiting

text \<open>
  The state of one run of a composer's generator: the names its \<^verbatim>\<open>TelemetryEmitter\<close>
  has recorded, the events so far, and whether the generator has returned, has thrown or
  awaits a backend that never answers.
\<close>

record 'v run =
  fired :: "string set"
  trace :: "'v event list"
  status :: status

text \<open>\<^verbatim>\<open>new TelemetryEmitter()\<close> at the start of the generator: nothing fired yet.\<close>

definition start :: "'v run" where
  "start = \<lparr>fired = {}, trace = [], status = Running\<rparr>"

text \<open>
  Modelled from the spec: the class \<^verbatim>\<open>TelemetryEmitter\<close> of \<^verbatim>\<open>./telemetry\<close> is not
  under src/.  "\<^verbatim>\<open>emitOnce(name)\<close> -- on first call with a given name for a given
  emitter instance, performs the external emission side effect and records the name as
  fired; on any later call with the same name, no-op."  A failing emission does not
  interrupt the sequence.
\<close>

definition emitOnce :: "string \<Rightarrow> 'v run \<Rightarrow> 'v run" where
  "emitOnce name r =
     (if name \<in> fired r then r
      else r\<lparr>fired := insert name (fired r), trace := trace r @ [Emitted name]\<rparr>)"

text \<open>
  The statements \<^verbatim>\<open>yield v\<close> and \<^verbatim>\<open>return\<close> of a generator, and the call of a
  backend.
\<close>

definition yield :: "'v \<Rightarrow> 'v run \<Rightarrow> 'v run" where
  "yield v r = r\<lparr>trace := trace r @ [Yielded v]\<rparr>"

definition invoke :: "backend \<Rightarrow> 'v run \<Rightarrow> 'v run" where
  "invoke b r = r\<lparr>trace := trace r @ [Invoked b]\<rparr>"

definition return :: "'v run \<Rightarrow> 'v run" where
  "return r = r\<lparr>status := Returned\<rparr>"

text \<open>
  The generator stops where a backend fails it: a rejected promise or a throwing
  generator makes it throw, one that never answers leaves it waiting.
\<close>

fun stopped :: "ending \<Rightarrow> 'v run \<Rightarrow> 'v run" where
  "stopped Throws r = r\<lparr>status := Threw\<rparr>"
| "stopped Stalls r = r\<lparr>status := Awaiting\<rparr>"
| "stopped Completes r = r"

text \<open>\<^verbatim>\<open>const x = await provider(...)\<close>, followed by the rest \<open>k\<close> of the generator.\<close>

fun await :: "backend \<Rightarrow> 'a promise \<Rightarrow> ('a \<Rightarrow> 'v run \<Rightarrow> 'v run) \<Rightarrow> 'v run \<Rightarrow> 'v run" where
  "await b (Resolves x) k r = k x (invoke b r)"
| "await b Rejects_promise k r = stopped Throws (invoke b r)"
| "await b Pending k r = stopped Stalls (invoke b r)"

text \<open>
  A loop over an array, \<^verbatim>\<open>for await (const x of xs) { body }\<close>, followed by the rest
  \<open>k\<close> of the generator.  The loop carries the local variable \<open>l\<close> that its body
  assigns.
\<close>

definition for_of ::
  "'a list \<Rightarrow> ('a \<Rightarrow> 'l \<times> 'v run \<Rightarrow> 'l \<times> 'v run) \<Rightarrow> ('l \<Rightarrow> 'v run \<Rightarrow> 'v run) \<Rightarrow>
   'l \<Rightarrow> 'v run \<Rightarrow> 'v run" where
  "for_of xs body k l r = (case foldl (\<lambda>acc x. body x acc) (l, r) xs of (l', r') \<Rightarrow> k l' r')"

text \<open>
  A loop over a backend's generator, \<^verbatim>\<open>for await (const x of provider(...)) { body }\<close>:
  the backend is called, the body runs on each value it yields, and the rest \<open>k\<close> of the
  generator runs only when the backend's generator completes.
\<close>

definition for_await ::
  "backend \<Rightarrow> 'a async_generator \<Rightarrow> ('a \<Rightarrow> 'l \<times> 'v run \<Rightarrow> 'l \<times> 'v run) \<Rightarrow>
   ('l \<Rightarrow> 'v run \<Rightarrow> 'v run) \<Rightarrow> 'l \<Rightarrow> 'v run \<Rightarrow> 'v run" where
  "for_await b g body k l r =
     for_of (items g) body
       (\<lambda>l' r'. case ending g of
                   Completes \<Rightarrow> k l' r'
                 | Throws \<Rightarrow> stopped Throws r'
                 | Stalls \<Rightarrow> stopped Stalls r')
       l (invoke b r)"

text \<open>
  The probing loop of the hover composer, which leaves with \<^verbatim>\<open>break\<close> at the first
  value that satisfies \<open>p\<close>; \<open>k\<close> receives whether one was found.
\<close>

definition for_await_break ::
  "backend \<Rightarrow> 'a async_generator \<Rightarrow> ('a \<Rightarrow> bool) \<Rightarrow> (bool \<Rightarrow> 'v run \<Rightarrow> 'v run) \<Rightarrow>
   'v run \<Rightarrow> 'v run" where
  "for_await_break b g p k r =
     (if list_ex p (items g) then k True (invoke b r)
      else (case ending g of
              Completes \<Rightarrow> k False (invoke b r)
            | Throws \<Rightarrow> stopped Throws (invoke b r)
            | Stalls \<Rightarrow> stopped Stalls (invoke b r)))"

section \<open>The composers\<close>

text \<open>\<^verbatim>\<open>createDefinitionProvider\<close> (providers.ts, lines 174-229).\<close>

definition createDefinitionProvider ::
  "('q \<Rightarrow> DefinitionAndHover option promise) \<Rightarrow> ('q \<Rightarrow> Definition async_generator) \<Rightarrow>
   ('q \<Rightarrow> Definition async_generator) option \<Rightarrow> 'q \<Rightarrow> Definition run" where
  "createDefinitionProvider lsifProvider searchProvider lspProvider q =
     await LsifProvider (lsifProvider q) (\<lambda>lsifWrapper r0.
       let rest = (\<lambda>hasPreciseResult r1.
             if hasPreciseResult then return r1
             else (case lspProvider of
                     Some lsp \<Rightarrow>
                       for_await LspProvider (lsp q)
                         (\<lambda>lspResult (u, r).
                            (u, yield lspResult
                                  (if nonEmpty lspResult then emitOnce ''lspDefinitions'' r else r)))
                         (\<lambda>u. return) () r1
                   | None \<Rightarrow>
                       for_await SearchProvider (searchProvider q)
                         (\<lambda>searchResult (u, r).
                            (u, yield (badgeValues searchResult impreciseBadge)
                                  (if nonEmpty searchResult then emitOnce ''searchDefinitions'' r
                                   else r)))
                         (\<lambda>u. return) () r1))
       in
       case lsifWrapper of
         None \<Rightarrow> rest False r0
       | Some w \<Rightarrow>
           for_of (asArray (case dh_definition w of Null \<Rightarrow> Many [] | d \<Rightarrow> d))
             (\<lambda>lsifResult (hasPreciseResult, r).
                (True, yield (Single lsifResult) (emitOnce ''lsifDefinitions'' r)))
             rest False r0)
       start"

text \<open>
  \<^verbatim>\<open>createReferencesProvider\<close> (providers.ts, lines 242-304).  In the first loop the
  type guard \<^verbatim>\<open>nonEmpty\<close> narrows \<^verbatim>\<open>lsifResult\<close> to an array, which
  \<^verbatim>\<open>lsifResults = lsifResult\<close> stores.
\<close>

definition createReferencesProvider ::
  "('q \<Rightarrow> location list option async_generator) \<Rightarrow>
   ('q \<Rightarrow> location list option async_generator) \<Rightarrow>
   ('q \<Rightarrow> location list option async_generator) option \<Rightarrow> 'q \<Rightarrow> location list option run" where
  "createReferencesProvider lsifProvider searchProvider lspProvider q =
     for_await LsifProvider (lsifProvider q)
       (\<lambda>lsifResult (lsifResults, r).
          if nonEmpty (of_batch lsifResult)
          then (asArray (of_batch lsifResult), yield lsifResult (emitOnce ''lsifReferences'' r))
          else (lsifResults, r))
       (\<lambda>lsifResults r1.
          case lspProvider of
            Some lsp \<Rightarrow>
              for_await LspProvider (lsp q)
                (\<lambda>lspResult (u, r).
                   let filteredResults = asArray (of_batch lspResult) in
                   if length filteredResults = 0 then (u, r)
                   else (u, yield (Some (lsifResults @ filteredResults))
                              (emitOnce ''lspReferences'' r)))
                (\<lambda>u. return) () r1
          | None \<Rightarrow>
              let lsifFiles = set (map file_of lsifResults) in
              for_await SearchProvider (searchProvider q)
                (\<lambda>searchResult (u, r).
                   let filteredResults =
                         filter (\<lambda>location. file_of location \<notin> lsifFiles)
                           (asArray (of_batch searchResult)) in
                   if length filteredResults = 0 then (u, r)
                   else (u, yield (Some (lsifResults @
                                     asArray (badgeValues (Many filteredResults) impreciseBadge)))
                              (emitOnce ''searchReferences'' r)))
                (\<lambda>u. return) () r1)
       [] start"

text \<open>The constant \<^verbatim>\<open>searchAlerts\<close> of \<^verbatim>\<open>createHoverProvider\<close> (lines 321-328).\<close>

fun searchAlerts :: "LSIFSupport \<Rightarrow> HoverAlert list option" where
  "searchAlerts LSIFSupport_None = Some [HoverAlerts_searchLSIFSupportNone]"
| "searchAlerts LSIFSupport_Experimental = Some [HoverAlerts_searchLSIFSupportExperimental]"
| "searchAlerts LSIFSupport_Robust = Some [HoverAlerts_searchLSIFSupportRobust]"

text \<open>
  \<^verbatim>\<open>{ ...result, ...(alerts ? { alerts } : {}) }\<close>: the pending alert set replaces the
  value's \<^verbatim>\<open>alerts\<close> property; without one the value is copied as it is.
\<close>

fun with_alerts :: "Hover \<Rightarrow> HoverAlert list option \<Rightarrow> Hover" where
  "with_alerts h (Some a) = h\<lparr>alerts := Some a\<rparr>"
| "with_alerts h None = h"

text \<open>
  The body shared by the two last loops of \<^verbatim>\<open>createHoverProvider\<close> (lines 369-376 and
  386-393), which differ in the event name only: a non-null value is yielded with the
  pending alert set, and \<^verbatim>\<open>alerts = undefined\<close> follows.
\<close>

definition hover_body ::
  "string \<Rightarrow> Hover option \<Rightarrow> HoverAlert list option \<times> Hover run \<Rightarrow>
   HoverAlert list option \<times> Hover run" where
  "hover_body name result = (\<lambda>(alerts_var, r).
     case result of
       Some h \<Rightarrow> (None, yield (with_alerts h alerts_var) (emitOnce name r))
     | None \<Rightarrow> (alerts_var, r))"

text \<open>\<^verbatim>\<open>createHoverProvider\<close> (providers.ts, lines 314-396).\<close>

definition createHoverProvider ::
  "LSIFSupport \<Rightarrow> ('q \<Rightarrow> DefinitionAndHover option promise) \<Rightarrow>
   ('q \<Rightarrow> Definition async_generator) \<Rightarrow> ('q \<Rightarrow> Hover option async_generator) \<Rightarrow>
   ('q \<Rightarrow> Hover option async_generator) option \<Rightarrow> 'q \<Rightarrow> Hover run" where
  "createHoverProvider lsifSupport lsifProvider searchDefinitionProvider searchHoverProvider
     lspProvider q =
     await LsifProvider (lsifProvider q) (\<lambda>lsifWrapper r0.
       let fallback = (\<lambda>hasPreciseDefinition r.
             case lspProvider of
               Some lsp \<Rightarrow>
                 for_await LspProvider (lsp q) (hover_body ''lspHover'')
                   (\<lambda>a. return) (Some [HoverAlerts_lsp]) r
             | None \<Rightarrow>
                 for_await SearchHoverProvider (searchHoverProvider q) (hover_body ''searchHover'')
                   (\<lambda>a. return)
                   (if hasPreciseDefinition then Some [HoverAlerts_lsifPartialDefinitionOnly]
                    else searchAlerts lsifSupport) r)
       in
       case lsifWrapper of
         None \<Rightarrow> fallback False r0
       | Some w \<Rightarrow>
           (case dh_hover w of
              Some h \<Rightarrow>
                (let finish = (\<lambda>partialPreciseData r.
                       return
                         (yield
                            (h\<lparr>alerts := Some (if \<not> partialPreciseData then [HoverAlerts_lsif]
                                                 else [HoverAlerts_lsifPartialHoverOnly])\<rparr>)
                            (emitOnce ''lsifHover'' r)))
                 in
                 if \<not> nonEmpty (dh_definition w)
                 then for_await_break SearchDefinitionProvider (searchDefinitionProvider q)
                        nonEmpty finish r0
                 else finish False r0)
            | None \<Rightarrow> fallback (nonEmpty (dh_definition w)) r0))
       start"

text \<open>\<^verbatim>\<open>createDocumentHighlightProvider\<close> (providers.ts, lines 405-425).\<close>

definition createDocumentHighlightProvider ::
  "('q \<Rightarrow> 'h list option async_generator) \<Rightarrow> ('q \<Rightarrow> 'h list option async_generator) \<Rightarrow>
   ('q \<Rightarrow> 'h list option async_generator) option \<Rightarrow> 'q \<Rightarrow> 'h list option run" where
  "createDocumentHighlightProvider lsifProvider searchProvider lspProvider q =
     for_await LsifProvider (lsifProvider q)
       (\<lambda>lsifResult (u, r).
          case lsifResult of
            Some hs \<Rightarrow> (u, yield lsifResult (emitOnce ''lsifDocumentHighlight'' r))
          | None \<Rightarrow> (u, r))
       (\<lambda>u. return) () start"

section \<open>What a run did\<close>

fun yielded :: "'v event list \<Rightarrow> 'v list" where
  "yielded [] = []"
| "yielded (Yielded v # es) = v # yielded es"
| "yielded (e # es) = yielded es"

fun emissions :: "'v event list \<Rightarrow> string list" where
  "emissions [] = []"
| "emissions (Emitted n # es) = n # emissions es"
| "emissions (e # es) = emissions es"

fun invocations :: "'v event list \<Rightarrow> backend list" where
  "invocations [] = []"
| "invocations (Invoked b # es) = b # invocations es"
| "invocations (e # es) = invocations es"

text \<open>How a generator ends when a loop over a backend is its last statement.\<close>

fun ended :: "ending \<Rightarrow> status" where
  "ended Completes = Returned"
| "ended Throws = Threw"
| "ended Stalls = Awaiting"

text \<open>
  The names the emitter has recorded are the names emitted so far, and no name was emitted
  twice.
\<close>

definition emitter_inv :: "'v run \<Rightarrow> bool" where
  "emitter_inv r = (set (emissions (trace r)) = fired r \<and> distinct (emissions (trace r)))"

text \<open>
  The most recent non-empty batch among the batches a backend has yielded, and the empty
  array when there is none.
\<close>

definition last_nonempty_batch :: "'a list option list \<Rightarrow> 'a list" where
  "last_nonempty_batch bs =
     (case filter (\<lambda>b. nonEmpty (of_batch b)) bs of
        [] \<Rightarrow> []
      | y # ys \<Rightarrow> asArray (of_batch (last (y # ys))))"

section \<open>The reconfiguration controller\<close>

text \<open>
  \<^verbatim>\<open>reregisterOnChange\<close> is imported from \<^verbatim>\<open>./util\<close> by
  \<^verbatim>\<open>lsp/features/references.ts\<close> and exercised by \<^verbatim>\<open>lsp/features/util.test.ts\<close>;
  its own code is not under src/.  A configuration snapshot maps field names to values.
  The \<open>n\<close>-th call of the registration callback returns the handle numbered \<open>n\<close>,
  counting from zero; the controller's state records the callback's arguments and the
  handles disposed, both in order.
\<close>

record ('k, 'v) controller =
  previous :: "'k \<Rightarrow> 'v"
  current :: "nat option"
  registered :: "('k \<Rightarrow> 'v) list"
  disposed :: "nat list"
  subscribed :: bool

text \<open>
  Modelled from the spec: step 1 of \<^verbatim>\<open>reregisterOnChange\<close>, which is not under src/.
  "On subscription, read the current snapshot, call \<^verbatim>\<open>registerFn(snapshot)\<close>, store the
  returned handle."
\<close>

definition subscribe :: "('k \<Rightarrow> 'v) \<Rightarrow> ('k, 'v) controller" where
  "subscribe snapshot =
     \<lparr>previous = snapshot, current = Some 0, registered = [snapshot], disposed = [],
      subscribed = True\<rparr>"

text \<open>
  Modelled from the spec: step 2 of \<^verbatim>\<open>reregisterOnChange\<close>, which is not under src/.
  "On every subsequent snapshot emitted by \<^verbatim>\<open>configStream\<close>, compare only
  \<^verbatim>\<open>trackedFields\<close> (shallow equality per field) against the previous snapshot.  If
  none differ, no action.  If any differ, dispose the current handle, call
  \<^verbatim>\<open>registerFn(newSnapshot)\<close>, store the new handle, update the stored snapshot to the
  full new snapshot."  A snapshot emitted after the controller was disposed is not
  received.
\<close>

definition on_snapshot ::
  "'k list \<Rightarrow> ('k \<Rightarrow> 'v) \<Rightarrow> ('k, 'v) controller \<Rightarrow> ('k, 'v) controller" where
  "on_snapshot trackedFields newSnapshot c =
     (if \<not> subscribed c then c
      else if list_all (\<lambda>k. newSnapshot k = previous c k) trackedFields then c
      else c\<lparr>disposed := disposed c @ (case current c of Some h \<Rightarrow> [h] | None \<Rightarrow> []),
             current := Some (length (registered c)),
             registered := registered c @ [newSnapshot],
             previous := newSnapshot\<rparr>)"

text \<open>
  Modelled from the spec: step 3 of \<^verbatim>\<open>reregisterOnChange\<close>, which is not under src/.
  "Returns a disposable; disposing it unsubscribes from \<^verbatim>\<open>configStream\<close> and disposes
  whatever handle is currently active."
\<close>

definition dispose :: "('k, 'v) controller \<Rightarrow> ('k, 'v) controller" where
  "dispose c =
     c\<lparr>subscribed := False,
       disposed := disposed c @ (case current c of Some h \<Rightarrow> [h] | None \<Rightarrow> []),
       current := None\<rparr>"

text \<open>
  Modelled from the spec: \<^verbatim>\<open>reregisterOnChange(configStream, trackedFields, registerFn)\<close>,
  which is not under src/, on a stream that emits \<open>snapshot\<close> on subscription and then
  the snapshots \<open>later\<close>.
\<close>

definition reregisterOnChange ::
  "'k list \<Rightarrow> ('k \<Rightarrow> 'v) \<Rightarrow> ('k \<Rightarrow> 'v) list \<Rightarrow> ('k, 'v) controller" where
  "reregisterOnChange trackedFields snapshot later =
     foldl (\<lambda>c s. on_snapshot trackedFields s c) (subscribe snapshot) later"

text \<open>The handles the registration callback has returned that were not disposed.\<close>

definition active :: "('k, 'v) controller \<Rightarrow> nat list" where
  "active c = filter (\<lambda>h. h \<notin> set (disposed c)) [0..<length (registered c)]"

text \<open>The settings of \<^verbatim>\<open>util.test.ts\<close>: the fields foo, bar and baz.\<close>

definition settings :: "string \<Rightarrow> string \<Rightarrow> string \<Rightarrow> string \<Rightarrow> string" where
  "settings foo bar baz =
     (\<lambda>k. if k = ''foo'' then foo else if k = ''bar'' then bar
          else if k = ''baz'' then baz else [])"

section \<open>Example values\<close>

definition locA :: location where
  "locA = \<lparr>loc_uri = \<lparr>host = ''repo'', pathname = [], hash = ''#/a.ts''\<rparr>,
            loc_range = Some (1, 2, 3, 4), loc_badge = None\<rparr>"

definition locA2 :: location where
  "locA2 = \<lparr>loc_uri = \<lparr>host = ''repo'', pathname = [], hash = ''#/a.ts''\<rparr>,
             loc_range = Some (7, 0, 7, 5), loc_badge = None\<rparr>"

definition locB :: location where
  "locB = \<lparr>loc_uri = \<lparr>host = ''repo'', pathname = [], hash = ''#/b.ts''\<rparr>,
            loc_range = Some (2, 3, 4, 5), loc_badge = None\<rparr>"

definition locC :: location where
  "locC = \<lparr>loc_uri = \<lparr>host = ''repo'', pathname = [], hash = ''#/c.ts''\<rparr>,
            loc_range = Some (3, 4, 5, 6), loc_badge = None\<rparr>"

definition hoverH :: Hover where
  "hoverH = \<lparr>contents = ''foo'', alerts = None\<rparr>"

definition hoverK :: Hover where
  "hoverK = \<lparr>contents = ''bar'', alerts = None\<rparr>"

section \<open>Basic facts about the steps of a run\<close>

lemma yielded_append: "yielded (es @ fs) = yielded es @ yielded fs"
  by (induction es rule: yielded.induct) simp_all

lemma emissions_append: "emissions (es @ fs) = emissions es @ emissions fs"
  by (induction es rule: emissions.induct) simp_all

lemma invocations_append: "invocations (es @ fs) = invocations es @ invocations fs"
  by (induction es rule: invocations.induct) simp_all

lemma start_simps:
  "fired start = {}" "trace start = []" "status start = Running"
  by (simp_all add: start_def)

lemma yield_simps:
  "fired (yield v r) = fired r"
  "status (yield v r) = status r"
  "yielded (trace (yield v r)) = yielded (trace r) @ [v]"
  "emissions (trace (yield v r)) = emissions (trace r)"
  "invocations (trace (yield v r)) = invocations (trace r)"
  by (simp_all add: yield_def yielded_append emissions_append invocations_append)

lemma invoke_simps:
  "fired (invoke b r) = fired r"
  "status (invoke b r) = status r"
  "yielded (trace (invoke b r)) = yielded (trace r)"
  "emissions (trace (invoke b r)) = emissions (trace r)"
  "invocations (trace (invoke b r)) = invocations (trace r) @ [b]"
  by (simp_all add: invoke_def yielded_append emissions_append invocations_append)

lemma emitOnce_simps:
  "fired (emitOnce n r) = insert n (fired r)"
  "status (emitOnce n r) = status r"
  "yielded (trace (emitOnce n r)) = yielded (trace r)"
  "emissions (trace (emitOnce n r)) = emissions (trace r) @ (if n \<in> fired r then [] else [n])"
  "invocations (trace (emitOnce n r)) = invocations (trace r)"
  by (auto simp add: emitOnce_def yielded_append emissions_append invocations_append)

lemma return_simps:
  "fired (return r) = fired r"
  "trace (return r) = trace r"
  "status (return r) = Returned"
  by (simp_all add: return_def)

lemma stopped_simps:
  "fired (stopped e r) = fired r"
  "trace (stopped e r) = trace r"
  "status (stopped e r) = (case e of Completes \<Rightarrow> status r | Throws \<Rightarrow> Threw | Stalls \<Rightarrow> Awaiting)"
  by (cases e; simp)+

declare stopped.simps [simp del]

lemmas step_simps = start_simps yield_simps invoke_simps emitOnce_simps return_simps stopped_simps

section \<open>The emitter's invariant\<close>

lemma emitter_inv_start: "emitter_inv start"
  by (simp add: emitter_inv_def step_simps)

lemma emitter_inv_emitOnce: "emitter_inv r \<Longrightarrow> emitter_inv (emitOnce n r)"
  by (auto simp add: emitter_inv_def step_simps)

lemma emitter_inv_yield: "emitter_inv r \<Longrightarrow> emitter_inv (yield v r)"
  by (simp add: emitter_inv_def step_simps)

lemma emitter_inv_invoke: "emitter_inv r \<Longrightarrow> emitter_inv (invoke b r)"
  by (simp add: emitter_inv_def step_simps)

lemma emitter_inv_return: "emitter_inv r \<Longrightarrow> emitter_inv (return r)"
  by (simp add: emitter_inv_def step_simps)

lemma emitter_inv_stopped: "emitter_inv r \<Longrightarrow> emitter_inv (stopped e r)"
  by (simp add: emitter_inv_def step_simps)

lemmas emitter_inv_steps =
  emitter_inv_emitOnce emitter_inv_yield emitter_inv_invoke emitter_inv_return emitter_inv_stopped

lemma emitter_inv_foldl:
  assumes "\<And>x l r. emitter_inv r \<Longrightarrow> emitter_inv (snd (body x (l, r)))"
    and "emitter_inv (snd acc)"
  shows "emitter_inv (snd (foldl (\<lambda>acc x. body x acc) acc xs))"
  using assms(2)
proof (induction xs arbitrary: acc)
  case Nil
  then show ?case by simp
next
  case (Cons x xs)
  have "emitter_inv (snd (body x acc))"
    using assms(1)[of "snd acc" x "fst acc"] Cons.prems by simp
  then show ?case using Cons.IH by simp
qed

lemma emitter_inv_for_of:
  assumes body: "\<And>x l r. emitter_inv r \<Longrightarrow> emitter_inv (snd (body x (l, r)))"
    and rest: "\<And>l r. emitter_inv r \<Longrightarrow> emitter_inv (k l r)"
    and r: "emitter_inv r"
  shows "emitter_inv (for_of xs body k l r)"
proof -
  obtain l' r' where f: "foldl (\<lambda>acc x. body x acc) (l, r) xs = (l', r')"
    by (cases "foldl (\<lambda>acc x. body x acc) (l, r) xs")
  have "emitter_inv (snd (foldl (\<lambda>acc x. body x acc) (l, r) xs))"
    by (rule emitter_inv_foldl) (simp_all add: body r)
  then have "emitter_inv r'" using f by simp
  then show ?thesis by (simp add: for_of_def f rest)
qed

lemma emitter_inv_for_await:
  assumes body: "\<And>x l r. emitter_inv r \<Longrightarrow> emitter_inv (snd (body x (l, r)))"
    and rest: "\<And>l r. emitter_inv r \<Longrightarrow> emitter_inv (k l r)"
    and r: "emitter_inv r"
  shows "emitter_inv (for_await b g body k l r)"
  unfolding for_await_def
  by (rule emitter_inv_for_of)
    (simp_all add: body rest r emitter_inv_invoke emitter_inv_stopped split: ending.splits)

lemma emitter_inv_for_await_break:
  assumes rest: "\<And>f r. emitter_inv r \<Longrightarrow> emitter_inv (k f r)"
    and r: "emitter_inv r"
  shows "emitter_inv (for_await_break b g p k r)"
  by (simp add: for_await_break_def rest r emitter_inv_invoke emitter_inv_stopped
      split: ending.splits)

lemma emitter_inv_await:
  assumes rest: "\<And>x r. emitter_inv r \<Longrightarrow> emitter_inv (k x r)"
    and r: "emitter_inv r"
  shows "emitter_inv (await b p k r)"
  by (cases p) (simp_all add: rest r emitter_inv_invoke emitter_inv_stopped)

lemma emitter_inv_hover_body:
  "emitter_inv r \<Longrightarrow> emitter_inv (snd (hover_body n x (l, r)))"
  by (simp add: hover_body_def emitter_inv_steps split: option.splits)

lemmas emitter_inv_loops =
  emitter_inv_await emitter_inv_for_await emitter_inv_for_of emitter_inv_for_await_break

lemma emitter_inv_createDefinitionProvider:
  "emitter_inv (createDefinitionProvider lsifProvider searchProvider lspProvider q)"
  unfolding createDefinitionProvider_def Let_def
  by (intro emitter_inv_await emitter_inv_start)
    (auto intro!: emitter_inv_for_await emitter_inv_for_of simp add: emitter_inv_steps
      split: option.splits)

lemma emitter_inv_createReferencesProvider:
  "emitter_inv (createReferencesProvider lsifProvider searchProvider lspProvider q)"
  unfolding createReferencesProvider_def Let_def
  by (intro emitter_inv_for_await emitter_inv_start)
    (auto intro!: emitter_inv_for_await simp add: emitter_inv_steps split: option.splits)

lemma emitter_inv_createHoverProvider:
  "emitter_inv (createHoverProvider lsifSupport lsifProvider searchDefinitionProvider
     searchHoverProvider lspProvider q)"
  unfolding createHoverProvider_def Let_def
  by (intro emitter_inv_await emitter_inv_start)
    (auto intro!: emitter_inv_for_await emitter_inv_for_await_break emitter_inv_hover_body
      simp add: emitter_inv_steps split: option.splits)

lemma emitter_inv_createDocumentHighlightProvider:
  "emitter_inv (createDocumentHighlightProvider lsifProvider searchProvider lspProvider q)"
  unfolding createDocumentHighlightProvider_def
  by (intro emitter_inv_for_await emitter_inv_start)
    (auto simp add: emitter_inv_steps split: option.splits)

section \<open>What the loops do\<close>

text \<open>
  A loop whose body, on the values that satisfy \<open>c\<close>, emits \<open>n\<close> once, yields \<open>f x\<close> and
  assigns \<open>g x l\<close> to its variable, and skips the other values.
\<close>

lemma foldl_filter_loop:
  fixes r :: "'v run" and c :: "'a \<Rightarrow> bool" and g :: "'a \<Rightarrow> 'l \<Rightarrow> 'l" and f :: "'a \<Rightarrow> 'v"
    and n :: string
  defines "body \<equiv> (\<lambda>x (l, r). if c x then (g x l, yield (f x) (emitOnce n r)) else (l, r))"
  shows "\<exists>r'. foldl (\<lambda>acc x. body x acc) (l, r) xs =
           (foldl (\<lambda>l x. if c x then g x l else l) l xs, r') \<and>
         fired r' = (if list_ex c xs then insert n (fired r) else fired r) \<and>
         status r' = status r \<and>
         yielded (trace r') = yielded (trace r) @ map f (filter c xs) \<and>
         emissions (trace r') =
           emissions (trace r) @ (if list_ex c xs \<and> n \<notin> fired r then [n] else []) \<and>
         invocations (trace r') = invocations (trace r)"
proof (induction xs arbitrary: l r)
  case Nil
  then show ?case by simp
next
  case (Cons x xs)
  show ?case
  proof (cases "c x")
    case True
    from Cons.IH[of "g x l" "yield (f x) (emitOnce n r)"]
    show ?thesis using True by (auto simp add: body_def step_simps)
  next
    case False
    from Cons.IH[of l r]
    show ?thesis using False by (auto simp add: body_def)
  qed
qed

lemma for_of_filter_loop:
  fixes r :: "'v run"
  assumes "body = (\<lambda>x (l, r). if c x then (g x l, yield (f x) (emitOnce n r)) else (l, r))"
  obtains r' where
    "for_of xs body k l r = k (foldl (\<lambda>l x. if c x then g x l else l) l xs) r'"
    "fired r' = (if list_ex c xs then insert n (fired r) else fired r)"
    "status r' = status r"
    "yielded (trace r') = yielded (trace r) @ map f (filter c xs)"
    "emissions (trace r') =
       emissions (trace r) @ (if list_ex c xs \<and> n \<notin> fired r then [n] else [])"
    "invocations (trace r') = invocations (trace r)"
  using foldl_filter_loop[of c g f n l r xs] unfolding assms for_of_def
  by (metis (no_types, lifting) case_prod_conv)

text \<open>A loop whose body yields \<open>f x\<close> for every value and emits \<open>n\<close> once some value satisfies \<open>p\<close>.\<close>

lemma foldl_forward_loop:
  fixes r :: "'v run" and p :: "'a \<Rightarrow> bool" and f :: "'a \<Rightarrow> 'v" and n :: string and u :: 'l
  defines "body \<equiv> (\<lambda>x (u, r). (u, yield (f x) (if p x then emitOnce n r else r)))"
  shows "\<exists>r'. foldl (\<lambda>acc x. body x acc) (u, r) xs = (u, r') \<and>
         fired r' = (if list_ex p xs then insert n (fired r) else fired r) \<and>
         status r' = status r \<and>
         yielded (trace r') = yielded (trace r) @ map f xs \<and>
         emissions (trace r') =
           emissions (trace r) @ (if list_ex p xs \<and> n \<notin> fired r then [n] else []) \<and>
         invocations (trace r') = invocations (trace r)"
proof (induction xs arbitrary: r)
  case Nil
  then show ?case by simp
next
  case (Cons x xs)
  from Cons.IH[of "yield (f x) (if p x then emitOnce n r else r)"]
  show ?case by (auto simp add: body_def step_simps)
qed

lemma for_of_forward_loop:
  fixes r :: "'v run"
  assumes "body = (\<lambda>x (u, r). (u, yield (f x) (if p x then emitOnce n r else r)))"
  obtains r' where
    "for_of xs body k u r = k u r'"
    "fired r' = (if list_ex p xs then insert n (fired r) else fired r)"
    "status r' = status r"
    "yielded (trace r') = yielded (trace r) @ map f xs"
    "emissions (trace r') =
       emissions (trace r) @ (if list_ex p xs \<and> n \<notin> fired r then [n] else [])"
    "invocations (trace r') = invocations (trace r)"
  using foldl_forward_loop[of f p n u r xs] unfolding assms for_of_def
  by (metis (no_types, lifting) case_prod_conv)

lemma for_await_last_forward_loop:
  fixes r :: "'v run"
  assumes "body = (\<lambda>x (u, r). (u, yield (f x) (if p x then emitOnce n r else r)))"
  shows "yielded (trace (for_await b g body (\<lambda>u. return) u r)) = yielded (trace r) @ map f (items g)"
    and "emissions (trace (for_await b g body (\<lambda>u. return) u r)) =
           emissions (trace r) @ (if list_ex p (items g) \<and> n \<notin> fired r then [n] else [])"
    and "invocations (trace (for_await b g body (\<lambda>u. return) u r)) = invocations (trace r) @ [b]"
    and "status (for_await b g body (\<lambda>u. return) u r) = ended (ending g)"
proof -
  let ?k = "\<lambda>l' r'. case ending g of Completes \<Rightarrow> return r' | Throws \<Rightarrow> stopped Throws r'
    | Stalls \<Rightarrow> stopped Stalls r'"
  obtain r' where r':
    "for_of (items g) body ?k u (invoke b r) = ?k u r'"
    "fired r' = (if list_ex p (items g) then insert n (fired (invoke b r)) else fired (invoke b r))"
    "status r' = status (invoke b r)"
    "yielded (trace r') = yielded (trace (invoke b r)) @ map f (items g)"
    "emissions (trace r') = emissions (trace (invoke b r)) @
       (if list_ex p (items g) \<and> n \<notin> fired (invoke b r) then [n] else [])"
    "invocations (trace r') = invocations (trace (invoke b r))"
    by (rule for_of_forward_loop[OF assms, of "items g" ?k u "invoke b r"])
  have eq: "for_await b g body (\<lambda>u. return) u r = ?k u r'"
    unfolding for_await_def using r'(1) by simp
  show "yielded (trace (for_await b g body (\<lambda>u. return) u r)) = yielded (trace r) @ map f (items g)"
    unfolding eq using r'(4) by (cases "ending g") (simp_all add: step_simps)
  show "emissions (trace (for_await b g body (\<lambda>u. return) u r)) =
           emissions (trace r) @ (if list_ex p (items g) \<and> n \<notin> fired r then [n] else [])"
    unfolding eq using r'(5) by (cases "ending g") (simp_all add: step_simps)
  show "invocations (trace (for_await b g body (\<lambda>u. return) u r)) = invocations (trace r) @ [b]"
    unfolding eq using r'(6) by (cases "ending g") (simp_all add: step_simps)
  show "status (for_await b g body (\<lambda>u. return) u r) = ended (ending g)"
    unfolding eq by (cases "ending g") (simp_all add: step_simps)
qed

lemma for_await_last_filter_loop:
  fixes r :: "'v run"
  assumes "body = (\<lambda>x (l, r). if c x then (g x l, yield (f x) (emitOnce n r)) else (l, r))"
  shows "yielded (trace (for_await b s body (\<lambda>u. return) l r)) =
           yielded (trace r) @ map f (filter c (items s))"
    and "emissions (trace (for_await b s body (\<lambda>u. return) l r)) =
           emissions (trace r) @ (if list_ex c (items s) \<and> n \<notin> fired r then [n] else [])"
    and "invocations (trace (for_await b s body (\<lambda>u. return) l r)) = invocations (trace r) @ [b]"
    and "status (for_await b s body (\<lambda>u. return) l r) = ended (ending s)"
proof -
  let ?k = "\<lambda>l' r'. case ending s of Completes \<Rightarrow> return r' | Throws \<Rightarrow> stopped Throws r'
    | Stalls \<Rightarrow> stopped Stalls r'"
  obtain r' where r':
    "for_of (items s) body ?k l (invoke b r) =
       ?k (foldl (\<lambda>l x. if c x then g x l else l) l (items s)) r'"
    "fired r' = (if list_ex c (items s) then insert n (fired (invoke b r)) else fired (invoke b r))"
    "status r' = status (invoke b r)"
    "yielded (trace r') = yielded (trace (invoke b r)) @ map f (filter c (items s))"
    "emissions (trace r') = emissions (trace (invoke b r)) @
       (if list_ex c (items s) \<and> n \<notin> fired (invoke b r) then [n] else [])"
    "invocations (trace r') = invocations (trace (invoke b r))"
    by (rule for_of_filter_loop[OF assms, of "items s" ?k l "invoke b r"])
  have eq: "for_await b s body (\<lambda>u. return) l r = ?k () r'"
    unfolding for_await_def using r'(1) by simp
  show "yielded (trace (for_await b s body (\<lambda>u. return) l r)) =
           yielded (trace r) @ map f (filter c (items s))"
    unfolding eq using r'(4) by (cases "ending s") (simp_all add: step_simps)
  show "emissions (trace (for_await b s body (\<lambda>u. return) l r)) =
           emissions (trace r) @ (if list_ex c (items s) \<and> n \<notin> fired r then [n] else [])"
    unfolding eq using r'(5) by (cases "ending s") (simp_all add: step_simps)
  show "invocations (trace (for_await b s body (\<lambda>u. return) l r)) = invocations (trace r) @ [b]"
    unfolding eq using r'(6) by (cases "ending s") (simp_all add: step_simps)
  show "status (for_await b s body (\<lambda>u. return) l r) = ended (ending s)"
    unfolding eq by (cases "ending s") (simp_all add: step_simps)
qed

section \<open>The definition composer\<close>

lemma asArray_or_empty: "asArray (case d of Null \<Rightarrow> Many [] | d' \<Rightarrow> d') = asArray d"
  by (cases d) simp_all

lemma nonEmpty_asArray: "nonEmpty d = (asArray d \<noteq> [])"
  by (cases d) simp_all

text \<open>The composer once the LSIF lookup resolved with locations.\<close>

lemma definition_precise:
  assumes "lsifProvider q = Resolves (Some w)" and "nonEmpty (dh_definition w)"
  shows "\<exists>r'. createDefinitionProvider lsifProvider searchProvider lspProvider q = return r' \<and>
           yielded (trace r') = map Single (asArray (dh_definition w)) \<and>
           emissions (trace r') = [''lsifDefinitions''] \<and>
           invocations (trace r') = [LsifProvider]"
proof -
  let ?rest = "\<lambda>hasPreciseResult r1.
             if hasPreciseResult then return r1
             else (case lspProvider of
                     Some lsp \<Rightarrow>
                       for_await LspProvider (lsp q)
                         (\<lambda>lspResult (u, r).
                            (u, yield lspResult
                                  (if nonEmpty lspResult then emitOnce ''lspDefinitions'' r else r)))
                         (\<lambda>u. return) () r1
                   | None \<Rightarrow>
                       for_await SearchProvider (searchProvider q)
                         (\<lambda>searchResult (u, r).
                            (u, yield (badgeValues searchResult impreciseBadge)
                                  (if nonEmpty searchResult then emitOnce ''searchDefinitions'' r
                                   else r)))
                         (\<lambda>u. return) () r1)"
  let ?body = "\<lambda>lsifResult (hasPreciseResult, r).
                (True, yield (Single lsifResult) (emitOnce ''lsifDefinitions'' r))"
  let ?xs = "asArray (dh_definition w)"
  let ?r0 = "invoke LsifProvider start :: Definition run"
  have body: "?body = (\<lambda>x (l, r). if (\<lambda>x. True) x
      then ((\<lambda>x l. True) x l, yield (Single x) (emitOnce ''lsifDefinitions'' r)) else (l, r))"
    by simp
  obtain r' where r':
    "for_of ?xs ?body ?rest False ?r0 =
       ?rest (foldl (\<lambda>l x. if (\<lambda>x. True) x then (\<lambda>x l. True) x l else l) False ?xs) r'"
    "fired r' = (if list_ex (\<lambda>x. True) ?xs then insert ''lsifDefinitions'' (fired ?r0) else fired ?r0)"
    "status r' = status ?r0"
    "yielded (trace r') = yielded (trace ?r0) @ map Single (filter (\<lambda>x. True) ?xs)"
    "emissions (trace r') = emissions (trace ?r0) @
       (if list_ex (\<lambda>x. True) ?xs \<and> ''lsifDefinitions'' \<notin> fired ?r0 then [''lsifDefinitions''] else [])"
    "invocations (trace r') = invocations (trace ?r0)"
    by (rule for_of_filter_loop[OF body, of ?xs ?rest False ?r0])
  have ne: "?xs \<noteq> []" using assms(2) by (simp add: nonEmpty_asArray)
  then have ex: "list_ex (\<lambda>x. True) ?xs" by (cases ?xs) simp_all
  have flag: "foldl (\<lambda>l x. if True then True else l) False ?xs = True"
    using ne by (cases ?xs rule: rev_cases) simp_all
  have "createDefinitionProvider lsifProvider searchProvider lspProvider q = return r'"
    unfolding createDefinitionProvider_def Let_def
    using r'(1) flag by (simp add: assms(1) asArray_or_empty)
  then show ?thesis using r'(4,5,6) ex by (auto simp add: step_simps)
qed

text \<open>The composer once the LSIF lookup resolved without a location.\<close>

lemma definition_not_precise:
  assumes "lsifProvider q = Resolves w"
    and "case w of None \<Rightarrow> True | Some d \<Rightarrow> \<not> nonEmpty (dh_definition d)"
  shows "createDefinitionProvider lsifProvider searchProvider lspProvider q =
     (case lspProvider of
        Some lsp \<Rightarrow>
          for_await LspProvider (lsp q)
            (\<lambda>lspResult (u, r).
               (u, yield lspResult
                     (if nonEmpty lspResult then emitOnce ''lspDefinitions'' r else r)))
            (\<lambda>u. return) () (invoke LsifProvider start)
      | None \<Rightarrow>
          for_await SearchProvider (searchProvider q)
            (\<lambda>searchResult (u, r).
               (u, yield (badgeValues searchResult impreciseBadge)
                     (if nonEmpty searchResult then emitOnce ''searchDefinitions'' r
                      else r)))
            (\<lambda>u. return) () (invoke LsifProvider start))"
proof (cases w)
  case None
  then show ?thesis
    unfolding createDefinitionProvider_def Let_def by (simp add: assms(1))
next
  case (Some d)
  then have "asArray (dh_definition d) = []"
    using assms(2) by (simp add: nonEmpty_asArray)
  then show ?thesis
    unfolding createDefinitionProvider_def Let_def
    by (simp add: assms(1) Some asArray_or_empty for_of_def)
qed

text \<open>
  Claim C1.  When the LSIF (precise) lookup of the definition composer resolves with one
  or more definition locations, the composer yields exactly those locations, in order
  and each as a value of its own, and returns; the only backend it calls is the LSIF one, so neither the LSP (protocol)
  nor the search (heuristic) backend is invoked; and the only telemetry emission of the
  invocation is \<^verbatim>\<open>lsifDefinitions\<close> (the specification's
  \<^verbatim>\<open>preciseDefinitions\<close>), exactly once.
\<close>

theorem precise_definitions_stop:
  assumes "lsifProvider q = Resolves (Some w)" and "nonEmpty (dh_definition w)"
  shows "yielded (trace (createDefinitionProvider lsifProvider searchProvider lspProvider q)) =
           map Single (asArray (dh_definition w)) \<and>
         invocations (trace (createDefinitionProvider lsifProvider searchProvider lspProvider q)) =
           [LsifProvider] \<and>
         emissions (trace (createDefinitionProvider lsifProvider searchProvider lspProvider q)) =
           [''lsifDefinitions''] \<and>
         status (createDefinitionProvider lsifProvider searchProvider lspProvider q) = Returned"
proof -
  obtain r' where
    "createDefinitionProvider lsifProvider searchProvider lspProvider q = return r'"
    "yielded (trace r') = map Single (asArray (dh_definition w))"
    "emissions (trace r') = [''lsifDefinitions'']"
    "invocations (trace r') = [LsifProvider]"
    using definition_precise[where lsifProvider = lsifProvider and q = q, OF assms] by blast
  then show ?thesis by (simp add: step_simps)
qed

theorem precise_definitions_stop_witness:
  "nonEmpty (dh_definition \<lparr>dh_definition = Many [locA, locB], dh_hover = None\<rparr>) \<and>
   yielded (trace (createDefinitionProvider
      (\<lambda>q. Resolves (Some \<lparr>dh_definition = Many [locA, locB], dh_hover = None\<rparr>))
      (\<lambda>q. \<lparr>items = [Many [locC]], ending = Completes\<rparr>)
      (Some (\<lambda>q. \<lparr>items = [Single locC], ending = Completes\<rparr>)) ())) =
     [Single locA, Single locB] \<and>
   invocations (trace (createDefinitionProvider
      (\<lambda>q. Resolves (Some \<lparr>dh_definition = Many [locA, locB], dh_hover = None\<rparr>))
      (\<lambda>q. \<lparr>items = [Many [locC]], ending = Completes\<rparr>)
      (Some (\<lambda>q. \<lparr>items = [Single locC], ending = Completes\<rparr>)) ())) = [LsifProvider] \<and>
   emissions (trace (createDefinitionProvider
      (\<lambda>q. Resolves (Some \<lparr>dh_definition = Many [locA, locB], dh_hover = None\<rparr>))
      (\<lambda>q. \<lparr>items = [Many [locC]], ending = Completes\<rparr>)
      (Some (\<lambda>q. \<lparr>items = [Single locC], ending = Completes\<rparr>)) ())) = [''lsifDefinitions'']"
  using precise_definitions_stop[of
      "\<lambda>q. Resolves (Some \<lparr>dh_definition = Many [locA, locB], dh_hover = None\<rparr>)" "()"
      "\<lparr>dh_definition = Many [locA, locB], dh_hover = None\<rparr>"
      "\<lambda>q. \<lparr>items = [Many [locC]], ending = Completes\<rparr>"
      "Some (\<lambda>q. \<lparr>items = [Single locC], ending = Completes\<rparr>)"]
  by simp

lemma foldl_forward_fired:
  fixes r :: "'v run" and p :: "'a \<Rightarrow> bool" and f :: "'a \<Rightarrow> 'v" and n :: string and u :: 'l
  assumes "n \<in> fired r"
  shows "\<exists>r'. foldl (\<lambda>acc x. (\<lambda>x (u, r). (u, yield (f x) (if p x then emitOnce n r else r))) x acc)
              (u, r) xs = (u, r') \<and>
          trace r' = trace r @ map (\<lambda>x. Yielded (f x)) xs \<and> fired r' = fired r"
  using assms
proof (induction xs arbitrary: r)
  case Nil
  then show ?case by simp
next
  case (Cons x xs)
  let ?B = "\<lambda>acc x. (\<lambda>x (u, r). (u, yield (f x) (if p x then emitOnce n r else r))) x acc"
  have "n \<in> fired (yield (f x) r)"
    using Cons.prems by (simp add: step_simps)
  from Cons.IH[OF this] obtain r' where a:
    "foldl ?B (u, yield (f x) r) xs = (u, r')"
    "trace r' = trace (yield (f x) r) @ map (\<lambda>x. Yielded (f x)) xs"
    "fired r' = fired (yield (f x) r)"
    by blast
  have "foldl ?B (u, r) (x # xs) = (u, r')"
    using a(1) Cons.prems by (simp add: emitOnce_def)
  moreover have "trace r' = trace r @ map (\<lambda>x. Yielded (f x)) (x # xs)"
    using a(2) by (simp add: yield_def)
  moreover have "fired r' = fired r"
    using a(3) by (simp add: step_simps)
  ultimately show ?case by blast
qed

text \<open>
  The events of a loop that forwards every value: the values before the first one that
  satisfies \<open>p\<close> are yielded without an emission; the emission comes with the first one
  that satisfies \<open>p\<close>.
\<close>

lemma foldl_forward_trace:
  fixes r :: "'v run" and p :: "'a \<Rightarrow> bool" and f :: "'a \<Rightarrow> 'v" and n :: string and u :: 'l
  assumes "n \<notin> fired r"
  shows "\<exists>r'. foldl (\<lambda>acc x. (\<lambda>x (u, r). (u, yield (f x) (if p x then emitOnce n r else r))) x acc)
              (u, r) xs = (u, r') \<and>
          trace r' = trace r @ map (\<lambda>x. Yielded (f x)) (takeWhile (\<lambda>x. \<not> p x) xs) @
            (if list_ex p xs
             then Emitted n # map (\<lambda>x. Yielded (f x)) (dropWhile (\<lambda>x. \<not> p x) xs)
             else [])"
  using assms
proof (induction xs arbitrary: r)
  case Nil
  then show ?case by simp
next
  case (Cons x xs)
  show ?case
  proof (cases "p x")
    case True
    let ?r = "yield (f x) (emitOnce n r)"
    have "n \<in> fired ?r" by (simp add: step_simps)
    from foldl_forward_fired[OF this, of f p u xs] obtain r' where
      "foldl (\<lambda>acc x. (\<lambda>x (u, r). (u, yield (f x) (if p x then emitOnce n r else r))) x acc)
              (u, ?r) xs = (u, r')"
      "trace r' = trace ?r @ map (\<lambda>x. Yielded (f x)) xs"
      by blast
    then show ?thesis
      using True Cons.prems by (simp add: yield_def emitOnce_def)
  next
    case False
    let ?r = "yield (f x) r"
    have "n \<notin> fired ?r" using Cons.prems by (simp add: step_simps)
    from Cons.IH[OF this] obtain r' where
      "foldl (\<lambda>acc x. (\<lambda>x (u, r). (u, yield (f x) (if p x then emitOnce n r else r))) x acc)
              (u, ?r) xs = (u, r')"
      "trace r' = trace ?r @ map (\<lambda>x. Yielded (f x)) (takeWhile (\<lambda>x. \<not> p x) xs) @
            (if list_ex p xs
             then Emitted n # map (\<lambda>x. Yielded (f x)) (dropWhile (\<lambda>x. \<not> p x) xs)
             else [])"
      by blast
    then show ?thesis
      using False by (simp add: yield_def)
  qed
qed

lemma for_await_last_forward_trace:
  fixes r :: "'v run"
  assumes "body = (\<lambda>x (u, r). (u, yield (f x) (if p x then emitOnce n r else r)))"
    and "n \<notin> fired r"
  shows "trace (for_await b g body (\<lambda>u. return) u r) =
     trace r @ Invoked b # map (\<lambda>x. Yielded (f x)) (takeWhile (\<lambda>x. \<not> p x) (items g)) @
       (if list_ex p (items g)
        then Emitted n # map (\<lambda>x. Yielded (f x)) (dropWhile (\<lambda>x. \<not> p x) (items g))
        else [])"
proof -
  have "n \<notin> fired (invoke b r)"
    using assms(2) by (simp add: step_simps)
  from foldl_forward_trace[OF this, of f p u "items g"] obtain r' where r':
    "foldl (\<lambda>acc x. body x acc) (u, invoke b r) (items g) = (u, r')"
    "trace r' = trace (invoke b r) @
       map (\<lambda>x. Yielded (f x)) (takeWhile (\<lambda>x. \<not> p x) (items g)) @
       (if list_ex p (items g)
        then Emitted n # map (\<lambda>x. Yielded (f x)) (dropWhile (\<lambda>x. \<not> p x) (items g))
        else [])"
    unfolding assms(1) by blast
  have "trace (for_await b g body (\<lambda>u. return) u r) = trace r'"
    unfolding for_await_def for_of_def r'(1)
    by (cases "ending g") (simp_all add: step_simps)
  then show ?thesis
    using r'(2) by (simp add: invoke_def)
qed

text \<open>
  Claim C4.  When the LSIF (precise) lookup of the definition composer resolves without a
  definition (a null result, or a null or empty definition) and an LSP (protocol) backend
  is configured, the composer yields the values of the LSP backend, all of them, in order
  and unchanged, the empty ones included.  The values before the first non-empty one are
  yielded with no emission; \<^verbatim>\<open>lspDefinitions\<close> (the specification's
  \<^verbatim>\<open>protocolDefinitions\<close>) is emitted with the first non-empty value, just before it
  is yielded, and never if every value is empty; nothing else is emitted.  The backends
  called are the LSIF and the LSP one, so the search (heuristic) backend is never invoked.
\<close>

theorem protocol_definitions_forwarded:
  assumes "lsifProvider q = Resolves w"
    and "case w of None \<Rightarrow> True | Some d \<Rightarrow> \<not> nonEmpty (dh_definition d)"
  shows "trace (createDefinitionProvider lsifProvider searchProvider (Some lsp) q) =
           Invoked LsifProvider # Invoked LspProvider #
           map Yielded (takeWhile (\<lambda>v. \<not> nonEmpty v) (items (lsp q))) @
           (if list_ex nonEmpty (items (lsp q))
            then Emitted ''lspDefinitions'' #
                 map Yielded (dropWhile (\<lambda>v. \<not> nonEmpty v) (items (lsp q)))
            else []) \<and>
         yielded (trace (createDefinitionProvider lsifProvider searchProvider (Some lsp) q)) =
           items (lsp q) \<and>
         emissions (trace (createDefinitionProvider lsifProvider searchProvider (Some lsp) q)) =
           (if list_ex nonEmpty (items (lsp q)) then [''lspDefinitions''] else []) \<and>
         invocations (trace (createDefinitionProvider lsifProvider searchProvider (Some lsp) q)) =
           [LsifProvider, LspProvider] \<and>
         status (createDefinitionProvider lsifProvider searchProvider (Some lsp) q) =
           ended (ending (lsp q))"
proof -
  let ?body = "\<lambda>lspResult (u :: unit, r :: Definition run).
     (u, yield lspResult (if nonEmpty lspResult then emitOnce ''lspDefinitions'' r else r))"
  have body: "?body = (\<lambda>x (u, r). (u, yield ((\<lambda>x. x) x)
      (if nonEmpty x then emitOnce ''lspDefinitions'' r else r)))"
    by simp
  have eq: "createDefinitionProvider lsifProvider searchProvider (Some lsp) q =
      for_await LspProvider (lsp q) ?body (\<lambda>u. return) () (invoke LsifProvider start)"
    using definition_not_precise[where lsifProvider = lsifProvider and q = q, OF assms,
        of searchProvider "Some lsp"] by simp
  have fresh: "''lspDefinitions'' \<notin> fired (invoke LsifProvider (start :: Definition run))"
    by (simp add: step_simps)
  show ?thesis
    unfolding eq
    using for_await_last_forward_loop[OF body, of LspProvider "lsp q" "()" "invoke LsifProvider start"]
      for_await_last_forward_trace[OF body fresh, of LspProvider "lsp q" "()"]
    by (simp add: step_simps invoke_def)
qed

theorem protocol_definitions_forwarded_witness:
  "(case Some \<lparr>dh_definition = Many [], dh_hover = Some hoverH\<rparr> of
      None \<Rightarrow> True | Some d \<Rightarrow> \<not> nonEmpty (dh_definition d)) \<and>
   yielded (trace (createDefinitionProvider
      (\<lambda>q. Resolves (Some \<lparr>dh_definition = Many [], dh_hover = Some hoverH\<rparr>))
      (\<lambda>q. \<lparr>items = [Many [locC]], ending = Completes\<rparr>)
      (Some (\<lambda>q. \<lparr>items = [Many [], Single locA, Null, Many [locA, locB]], ending = Completes\<rparr>))
      ())) = [Many [], Single locA, Null, Many [locA, locB]] \<and>
   emissions (trace (createDefinitionProvider
      (\<lambda>q. Resolves (Some \<lparr>dh_definition = Many [], dh_hover = Some hoverH\<rparr>))
      (\<lambda>q. \<lparr>items = [Many [locC]], ending = Completes\<rparr>)
      (Some (\<lambda>q. \<lparr>items = [Many [], Single locA, Null, Many [locA, locB]], ending = Completes\<rparr>))
      ())) = [''lspDefinitions''] \<and>
   invocations (trace (createDefinitionProvider
      (\<lambda>q. Resolves (Some \<lparr>dh_definition = Many [], dh_hover = Some hoverH\<rparr>))
      (\<lambda>q. \<lparr>items = [Many [locC]], ending = Completes\<rparr>)
      (Some (\<lambda>q. \<lparr>items = [Many [], Single locA, Null, Many [locA, locB]], ending = Completes\<rparr>))
      ())) = [LsifProvider, LspProvider]"
  using protocol_definitions_forwarded[of
      "\<lambda>q. Resolves (Some \<lparr>dh_definition = Many [], dh_hover = Some hoverH\<rparr>)" "()"
      "Some \<lparr>dh_definition = Many [], dh_hover = Some hoverH\<rparr>"
      "\<lambda>q. \<lparr>items = [Many [locC]], ending = Completes\<rparr>"
      "\<lambda>q. \<lparr>items = [Many [], Single locA, Null, Many [locA, locB]], ending = Completes\<rparr>"]
  by simp

section \<open>Telemetry fires at most once\<close>

lemma count_list_distinct: "distinct xs \<Longrightarrow> count_list xs x = (if x \<in> set xs then 1 else 0)"
  by (induction xs) auto

lemma emitter_inv_count: "emitter_inv r \<Longrightarrow> count_list (emissions (trace r)) n \<le> 1"
  by (simp add: emitter_inv_def count_list_distinct)

lemma fold_emitOnce:
  "emitter_inv r \<Longrightarrow>
   emitter_inv (fold emitOnce ns r) \<and> fired (fold emitOnce ns r) = fired r \<union> set ns"
proof (induction ns arbitrary: r)
  case Nil
  then show ?case by simp
next
  case (Cons n ns)
  from Cons.IH[OF emitter_inv_emitOnce[OF Cons.prems], of n]
  show ?case by (simp add: step_simps)
qed

lemma fold_emitOnce_start:
  "emitter_inv (fold emitOnce ns (start :: 'v run)) \<and> fired (fold emitOnce ns (start :: 'v run)) = set ns"
  using fold_emitOnce[OF emitter_inv_start, of ns, where ?'a = 'v] by (simp add: step_simps)

lemma count_fold_emitOnce_start:
  "count_list (emissions (trace (fold emitOnce ns (start :: 'v run)))) n = (if n \<in> set ns then 1 else 0)"
  using fold_emitOnce_start[of ns, where ?'v = 'v] by (simp add: emitter_inv_def count_list_distinct)

lemma funpow_emitOnce_start:
  "emissions (trace ((emitOnce n ^^ N) (start :: 'v run))) = (if N = 0 then [] else [n]) \<and>
   fired ((emitOnce n ^^ N) (start :: 'v run)) = (if N = 0 then {} else {n})"
  by (induction N) (simp_all add: step_simps)

lemma emissions_funpow_emitOnce_start:
  "emissions (trace ((emitOnce n ^^ N) (start :: 'v run))) = (if N = 0 then [] else [n])"
  using funpow_emitOnce_start[where n = n and N = N and ?'v = 'v] by simp

text \<open>
  Claim C3.  In one invocation of any of the four composers each telemetry event name is
  emitted at most once, whatever the backends yield: the invocation creates one emitter,
  and every emission goes through \<^verbatim>\<open>emitOnce\<close>.  On one emitter instance, a series of
  \<^verbatim>\<open>emitOnce\<close> calls performs the emission side effect for a name exactly once if the
  name is among the calls and never otherwise; in particular \<open>N\<close> calls with the same
  name perform it exactly once when \<open>N \<ge> 1\<close>.
\<close>

theorem telemetry_fires_at_most_once:
  "count_list (emissions (trace
      (createDefinitionProvider lsifProviderD searchProviderD lspProviderD qD))) name \<le> 1 \<and>
   count_list (emissions (trace
      (createReferencesProvider lsifProviderR searchProviderR lspProviderR qR))) name \<le> 1 \<and>
   count_list (emissions (trace
      (createHoverProvider lsifSupport lsifProviderH searchDefinitionProvider searchHoverProvider
         lspProviderH qH))) name \<le> 1 \<and>
   count_list (emissions (trace
      (createDocumentHighlightProvider lsifProviderG searchProviderG lspProviderG qG))) name \<le> 1 \<and>
   count_list (emissions (trace (fold emitOnce names (start :: 'v run)))) name =
     (if name \<in> set names then 1 else 0) \<and>
   emissions (trace ((emitOnce name ^^ N) (start :: 'v run))) = (if N = 0 then [] else [name])"
  by (intro conjI emitter_inv_count emitter_inv_createDefinitionProvider
      emitter_inv_createReferencesProvider emitter_inv_createHoverProvider
      emitter_inv_createDocumentHighlightProvider count_fold_emitOnce_start
      emissions_funpow_emitOnce_start)

section \<open>The references composer\<close>

lemma foldl_last_nonempty:
  "foldl (\<lambda>l x. if c x then g x else l) l xs =
     (case filter c xs of [] \<Rightarrow> l | y # ys \<Rightarrow> g (last (y # ys)))"
  by (induction xs arbitrary: l) (auto split: list.splits)

text \<open>The first loop of the composer, over the batches of the LSIF backend.\<close>

lemma references_lsif_loop:
  fixes k :: "location list \<Rightarrow> location list option run \<Rightarrow> location list option run"
  obtains r' where
    "for_await LsifProvider s
       (\<lambda>lsifResult (lsifResults, r).
          if nonEmpty (of_batch lsifResult)
          then (asArray (of_batch lsifResult), yield lsifResult (emitOnce ''lsifReferences'' r))
          else (lsifResults, r))
       k [] start =
     (case ending s of
        Completes \<Rightarrow> k (last_nonempty_batch (items s)) r'
      | Throws \<Rightarrow> stopped Throws r'
      | Stalls \<Rightarrow> stopped Stalls r')"
    "fired r' = (if list_ex (\<lambda>b. nonEmpty (of_batch b)) (items s) then {''lsifReferences''} else {})"
    "yielded (trace r') = filter (\<lambda>b. nonEmpty (of_batch b)) (items s)"
    "emissions (trace r') =
       (if list_ex (\<lambda>b. nonEmpty (of_batch b)) (items s) then [''lsifReferences''] else [])"
    "invocations (trace r') = [LsifProvider]"
proof -
  let ?body = "\<lambda>lsifResult (lsifResults, r :: location list option run).
          if nonEmpty (of_batch lsifResult)
          then (asArray (of_batch lsifResult), yield lsifResult (emitOnce ''lsifReferences'' r))
          else (lsifResults, r)"
  let ?c = "\<lambda>b :: location list option. nonEmpty (of_batch b)"
  let ?K = "\<lambda>l' r'. case ending s of
                   Completes \<Rightarrow> k l' r'
                 | Throws \<Rightarrow> stopped Throws r'
                 | Stalls \<Rightarrow> stopped Stalls r'"
  let ?r0 = "invoke LsifProvider start :: location list option run"
  have body: "?body = (\<lambda>x (l, r). if ?c x
      then ((\<lambda>x l. asArray (of_batch x)) x l, yield ((\<lambda>x. x) x) (emitOnce ''lsifReferences'' r))
      else (l, r))"
    by simp
  obtain r' where r':
    "for_of (items s) ?body ?K [] ?r0 =
       ?K (foldl (\<lambda>l x. if ?c x then (\<lambda>x l. asArray (of_batch x)) x l else l) [] (items s)) r'"
    "fired r' = (if list_ex ?c (items s) then insert ''lsifReferences'' (fired ?r0) else fired ?r0)"
    "status r' = status ?r0"
    "yielded (trace r') = yielded (trace ?r0) @ map (\<lambda>x. x) (filter ?c (items s))"
    "emissions (trace r') = emissions (trace ?r0) @
       (if list_ex ?c (items s) \<and> ''lsifReferences'' \<notin> fired ?r0 then [''lsifReferences''] else [])"
    "invocations (trace r') = invocations (trace ?r0)"
    by (rule for_of_filter_loop[OF body, of "items s" ?K "[]" ?r0])
  have last: "foldl (\<lambda>l x. if ?c x then (\<lambda>x l. asArray (of_batch x)) x l else l) [] (items s) =
      last_nonempty_batch (items s)"
    unfolding last_nonempty_batch_def
    by (rule foldl_last_nonempty[of ?c "\<lambda>x. asArray (of_batch x)" "[]" "items s"])
  show ?thesis
  proof (rule that[of r'])
    show "for_await LsifProvider s ?body k [] start =
     (case ending s of
        Completes \<Rightarrow> k (last_nonempty_batch (items s)) r'
      | Throws \<Rightarrow> stopped Throws r'
      | Stalls \<Rightarrow> stopped Stalls r')"
      unfolding for_await_def r'(1) last by (rule refl)
  qed (use r'(2,4,5,6) in \<open>simp_all add: step_simps\<close>)
qed

text \<open>The whole run when an LSP backend is configured.\<close>

lemma references_with_lsp:
  "yielded (trace (createReferencesProvider lsifProvider searchProvider (Some lsp) q)) =
     filter (\<lambda>b. nonEmpty (of_batch b)) (items (lsifProvider q)) @
     (if ending (lsifProvider q) = Completes
      then map (\<lambda>b. Some (last_nonempty_batch (items (lsifProvider q)) @ asArray (of_batch b)))
             (filter (\<lambda>b. asArray (of_batch b) \<noteq> []) (items (lsp q)))
      else [])"
  "emissions (trace (createReferencesProvider lsifProvider searchProvider (Some lsp) q)) =
     (if list_ex (\<lambda>b. nonEmpty (of_batch b)) (items (lsifProvider q))
      then [''lsifReferences''] else []) @
     (if ending (lsifProvider q) = Completes \<and>
         list_ex (\<lambda>b. asArray (of_batch b) \<noteq> []) (items (lsp q))
      then [''lspReferences''] else [])"
  "invocations (trace (createReferencesProvider lsifProvider searchProvider (Some lsp) q)) =
     (if ending (lsifProvider q) = Completes then [LsifProvider, LspProvider]
      else [LsifProvider])"
  "status (createReferencesProvider lsifProvider searchProvider (Some lsp) q) =
     (if ending (lsifProvider q) = Completes then ended (ending (lsp q))
      else ended (ending (lsifProvider q)))"
proof -
  let ?L = "last_nonempty_batch (items (lsifProvider q))"
  let ?k = "\<lambda>lsifResults r1.
          case Some lsp of
            Some lsp \<Rightarrow>
              for_await LspProvider (lsp q)
                (\<lambda>lspResult (u, r).
                   let filteredResults = asArray (of_batch lspResult) in
                   if length filteredResults = 0 then (u, r)
                   else (u, yield (Some (lsifResults @ filteredResults))
                              (emitOnce ''lspReferences'' r)))
                (\<lambda>u. return) () r1
          | None \<Rightarrow>
              let lsifFiles = set (map file_of lsifResults) in
              for_await SearchProvider (searchProvider q)
                (\<lambda>searchResult (u, r).
                   let filteredResults =
                         filter (\<lambda>location. file_of location \<notin> lsifFiles)
                           (asArray (of_batch searchResult)) in
                   if length filteredResults = 0 then (u, r)
                   else (u, yield (Some (lsifResults @
                                     asArray (badgeValues (Many filteredResults) impreciseBadge)))
                              (emitOnce ''searchReferences'' r)))
                (\<lambda>u. return) () r1"
  let ?body = "\<lambda>lspResult (u :: unit, r :: location list option run).
                   let filteredResults = asArray (of_batch lspResult) in
                   if length filteredResults = 0 then (u, r)
                   else (u, yield (Some (?L @ filteredResults))
                              (emitOnce ''lspReferences'' r))"
  let ?c = "\<lambda>b :: location list option. asArray (of_batch b) \<noteq> []"
  let ?f = "\<lambda>b. Some (?L @ asArray (of_batch b))"
  obtain r' where r':
    "createReferencesProvider lsifProvider searchProvider (Some lsp) q =
     (case ending (lsifProvider q) of
        Completes \<Rightarrow> ?k ?L r'
      | Throws \<Rightarrow> stopped Throws r'
      | Stalls \<Rightarrow> stopped Stalls r')"
    "fired r' = (if list_ex (\<lambda>b. nonEmpty (of_batch b)) (items (lsifProvider q))
       then {''lsifReferences''} else {})"
    "yielded (trace r') = filter (\<lambda>b. nonEmpty (of_batch b)) (items (lsifProvider q))"
    "emissions (trace r') =
       (if list_ex (\<lambda>b. nonEmpty (of_batch b)) (items (lsifProvider q))
        then [''lsifReferences''] else [])"
    "invocations (trace r') = [LsifProvider]"
    unfolding createReferencesProvider_def
    by (rule references_lsif_loop[of "lsifProvider q" ?k])
  have body: "?body = (\<lambda>x (l, r). if ?c x
      then ((\<lambda>x l. l) x l, yield (?f x) (emitOnce ''lspReferences'' r)) else (l, r))"
    by (simp add: fun_eq_iff Let_def)
  have k: "?k ?L r' = for_await LspProvider (lsp q) ?body (\<lambda>u. return) () r'"
    by simp
  have notfired: "''lspReferences'' \<notin> fired r'"
    using r'(2) by simp
  note loop = for_await_last_filter_loop[OF body, of LspProvider "lsp q" "()" r']
  show "yielded (trace (createReferencesProvider lsifProvider searchProvider (Some lsp) q)) =
     filter (\<lambda>b. nonEmpty (of_batch b)) (items (lsifProvider q)) @
     (if ending (lsifProvider q) = Completes
      then map ?f (filter ?c (items (lsp q)))
      else [])"
    unfolding r'(1)
    by (cases "ending (lsifProvider q)")
      (simp_all only: ending.case k loop(1) r'(3) stopped_simps if_True if_False
        ending.distinct append_Nil2 simp_thms)
  show "emissions (trace (createReferencesProvider lsifProvider searchProvider (Some lsp) q)) =
     (if list_ex (\<lambda>b. nonEmpty (of_batch b)) (items (lsifProvider q))
      then [''lsifReferences''] else []) @
     (if ending (lsifProvider q) = Completes \<and> list_ex ?c (items (lsp q))
      then [''lspReferences''] else [])"
    unfolding r'(1) using notfired
    by (cases "ending (lsifProvider q)")
      (simp_all only: ending.case k loop(2) r'(4) stopped_simps if_True if_False
        ending.distinct append_Nil2 simp_thms)
  show "invocations (trace (createReferencesProvider lsifProvider searchProvider (Some lsp) q)) =
     (if ending (lsifProvider q) = Completes then [LsifProvider, LspProvider]
      else [LsifProvider])"
    unfolding r'(1)
    by (cases "ending (lsifProvider q)")
      (simp_all only: ending.case k loop(3) r'(5) stopped_simps if_True if_False
        ending.distinct append.simps simp_thms)
  show "status (createReferencesProvider lsifProvider searchProvider (Some lsp) q) =
     (if ending (lsifProvider q) = Completes then ended (ending (lsp q))
      else ended (ending (lsifProvider q)))"
    unfolding r'(1)
    by (cases "ending (lsifProvider q)")
      (simp_all only: ending.case k loop(4) stopped_simps if_True if_False
        ending.distinct ended.simps simp_thms)
qed

text \<open>The whole run when no LSP backend is configured.\<close>

lemma references_with_search:
  "yielded (trace (createReferencesProvider lsifProvider searchProvider None q)) =
     filter (\<lambda>b. nonEmpty (of_batch b)) (items (lsifProvider q)) @
     (if ending (lsifProvider q) = Completes
      then map (\<lambda>b. Some (last_nonempty_batch (items (lsifProvider q)) @
                  asArray (badgeValues
                    (Many (filter (\<lambda>location. file_of location \<notin>
                        set (map file_of (last_nonempty_batch (items (lsifProvider q)))))
                      (asArray (of_batch b)))) impreciseBadge)))
             (filter (\<lambda>b. filter (\<lambda>location. file_of location \<notin>
                        set (map file_of (last_nonempty_batch (items (lsifProvider q)))))
                      (asArray (of_batch b)) \<noteq> []) (items (searchProvider q)))
      else [])"
  "emissions (trace (createReferencesProvider lsifProvider searchProvider None q)) =
     (if list_ex (\<lambda>b. nonEmpty (of_batch b)) (items (lsifProvider q))
      then [''lsifReferences''] else []) @
     (if ending (lsifProvider q) = Completes \<and>
         list_ex (\<lambda>b. filter (\<lambda>location. file_of location \<notin>
                        set (map file_of (last_nonempty_batch (items (lsifProvider q)))))
                      (asArray (of_batch b)) \<noteq> []) (items (searchProvider q))
      then [''searchReferences''] else [])"
  "invocations (trace (createReferencesProvider lsifProvider searchProvider None q)) =
     (if ending (lsifProvider q) = Completes then [LsifProvider, SearchProvider]
      else [LsifProvider])"
  "status (createReferencesProvider lsifProvider searchProvider None q) =
     (if ending (lsifProvider q) = Completes then ended (ending (searchProvider q))
      else ended (ending (lsifProvider q)))"
proof -
  let ?L = "last_nonempty_batch (items (lsifProvider q))"
  let ?k = "\<lambda>lsifResults r1.
          case None of
            Some lsp \<Rightarrow>
              for_await LspProvider (lsp q)
                (\<lambda>lspResult (u, r).
                   let filteredResults = asArray (of_batch lspResult) in
                   if length filteredResults = 0 then (u, r)
                   else (u, yield (Some (lsifResults @ filteredResults))
                              (emitOnce ''lspReferences'' r)))
                (\<lambda>u. return) () r1
          | None \<Rightarrow>
              let lsifFiles = set (map file_of lsifResults) in
              for_await SearchProvider (searchProvider q)
                (\<lambda>searchResult (u, r).
                   let filteredResults =
                         filter (\<lambda>location. file_of location \<notin> lsifFiles)
                           (asArray (of_batch searchResult)) in
                   if length filteredResults = 0 then (u, r)
                   else (u, yield (Some (lsifResults @
                                     asArray (badgeValues (Many filteredResults) impreciseBadge)))
                              (emitOnce ''searchReferences'' r)))
                (\<lambda>u. return) () r1"
  let ?kept = "\<lambda>b :: location list option.
     filter (\<lambda>location. file_of location \<notin> set (map file_of ?L)) (asArray (of_batch b))"
  let ?body = "\<lambda>searchResult (u :: unit, r :: location list option run).
                   let filteredResults = ?kept searchResult in
                   if length filteredResults = 0 then (u, r)
                   else (u, yield (Some (?L @
                                     asArray (badgeValues (Many filteredResults) impreciseBadge)))
                              (emitOnce ''searchReferences'' r))"
  let ?c = "\<lambda>b :: location list option. ?kept b \<noteq> []"
  let ?f = "\<lambda>b. Some (?L @ asArray (badgeValues (Many (?kept b)) impreciseBadge))"
  obtain r' where r':
    "createReferencesProvider lsifProvider searchProvider None q =
     (case ending (lsifProvider q) of
        Completes \<Rightarrow> ?k ?L r'
      | Throws \<Rightarrow> stopped Throws r'
      | Stalls \<Rightarrow> stopped Stalls r')"
    "fired r' = (if list_ex (\<lambda>b. nonEmpty (of_batch b)) (items (lsifProvider q))
       then {''lsifReferences''} else {})"
    "yielded (trace r') = filter (\<lambda>b. nonEmpty (of_batch b)) (items (lsifProvider q))"
    "emissions (trace r') =
       (if list_ex (\<lambda>b. nonEmpty (of_batch b)) (items (lsifProvider q))
        then [''lsifReferences''] else [])"
    "invocations (trace r') = [LsifProvider]"
    unfolding createReferencesProvider_def
    by (rule references_lsif_loop[of "lsifProvider q" ?k])
  have body: "?body = (\<lambda>x (l, r). if ?c x
      then ((\<lambda>x l. l) x l, yield (?f x) (emitOnce ''searchReferences'' r)) else (l, r))"
    by (simp add: fun_eq_iff Let_def)
  have k: "?k ?L r' = for_await SearchProvider (searchProvider q) ?body (\<lambda>u. return) () r'"
    by (simp add: Let_def)
  have notfired: "''searchReferences'' \<notin> fired r'"
    using r'(2) by simp
  note loop = for_await_last_filter_loop[OF body, of SearchProvider "searchProvider q" "()" r']
  show "yielded (trace (createReferencesProvider lsifProvider searchProvider None q)) =
     filter (\<lambda>b. nonEmpty (of_batch b)) (items (lsifProvider q)) @
     (if ending (lsifProvider q) = Completes
      then map ?f (filter ?c (items (searchProvider q)))
      else [])"
    unfolding r'(1)
    by (cases "ending (lsifProvider q)")
      (simp_all only: ending.case k loop(1) r'(3) stopped_simps if_True if_False
        ending.distinct append_Nil2 simp_thms)
  show "emissions (trace (createReferencesProvider lsifProvider searchProvider None q)) =
     (if list_ex (\<lambda>b. nonEmpty (of_batch b)) (items (lsifProvider q))
      then [''lsifReferences''] else []) @
     (if ending (lsifProvider q) = Completes \<and> list_ex ?c (items (searchProvider q))
      then [''searchReferences''] else [])"
    unfolding r'(1) using notfired
    by (cases "ending (lsifProvider q)")
      (simp_all only: ending.case k loop(2) r'(4) stopped_simps if_True if_False
        ending.distinct append_Nil2 simp_thms)
  show "invocations (trace (createReferencesProvider lsifProvider searchProvider None q)) =
     (if ending (lsifProvider q) = Completes then [LsifProvider, SearchProvider]
      else [LsifProvider])"
    unfolding r'(1)
    by (cases "ending (lsifProvider q)")
      (simp_all only: ending.case k loop(3) r'(5) stopped_simps if_True if_False
        ending.distinct append.simps simp_thms)
  show "status (createReferencesProvider lsifProvider searchProvider None q) =
     (if ending (lsifProvider q) = Completes then ended (ending (searchProvider q))
      else ended (ending (lsifProvider q)))"
    unfolding r'(1)
    by (cases "ending (lsifProvider q)")
      (simp_all only: ending.case k loop(4) stopped_simps if_True if_False
        ending.distinct ended.simps simp_thms)
qed

lemma last_nonempty_batch_decomposed:
  assumes "xs \<noteq> []" and "\<forall>b \<in> set bs2. \<not> nonEmpty (of_batch b)"
  shows "last_nonempty_batch (bs1 @ [Some xs] @ bs2) = xs"
proof -
  have "filter (\<lambda>b. nonEmpty (of_batch b)) bs2 = []"
    using assms(2) by (simp add: filter_empty_conv)
  then have eq: "filter (\<lambda>b. nonEmpty (of_batch b)) (bs1 @ [Some xs] @ bs2) =
      filter (\<lambda>b. nonEmpty (of_batch b)) bs1 @ [Some xs]"
    using assms(1) by simp
  then obtain z zs where zs: "filter (\<lambda>b. nonEmpty (of_batch b)) (bs1 @ [Some xs] @ bs2) = z # zs"
    by (cases "filter (\<lambda>b. nonEmpty (of_batch b)) (bs1 @ [Some xs] @ bs2)") simp_all
  have "last (z # zs) = Some xs"
    using eq zs by (metis last_snoc)
  then show ?thesis
    unfolding last_nonempty_batch_def zs by simp
qed

lemma file_of_badged: "file_of (l\<lparr>loc_badge := b\<rparr>) = file_of l"
  by (simp add: file_of_def)

text \<open>
  Claim C5.  With an LSP (protocol) backend configured, the references composer first
  yields the non-empty LSIF batches; once the LSIF backend has completed it calls the LSP
  backend and yields, for each non-empty LSP batch and in order, the most recent LSIF
  batch followed by the whole LSP batch, a plain concatenation from which no location is
  removed, so a location present in both appears twice; the empty LSP batches (null or
  the empty array) yield nothing; \<^verbatim>\<open>lspReferences\<close> (the specification's
  \<^verbatim>\<open>protocolReferences\<close>) is emitted once, with the first non-empty LSP batch, and not
  again for later ones; and the search (heuristic) backend is never called, whatever the
  LSP backend yields and however it ends.
\<close>

theorem protocol_references_concatenated:
  fixes lsifProvider :: "'q \<Rightarrow> location list option async_generator"
  defines "L \<equiv> \<lambda>q. last_nonempty_batch (items (lsifProvider q))"
  shows
    "yielded (trace (createReferencesProvider lsifProvider searchProvider (Some lsp) q)) =
       filter (\<lambda>b. nonEmpty (of_batch b)) (items (lsifProvider q)) @
       (if ending (lsifProvider q) = Completes
        then map (\<lambda>b. Some (L q @ asArray (of_batch b)))
               (filter (\<lambda>b. asArray (of_batch b) \<noteq> []) (items (lsp q)))
        else []) \<and>
     emissions (trace (createReferencesProvider lsifProvider searchProvider (Some lsp) q)) =
       (if list_ex (\<lambda>b. nonEmpty (of_batch b)) (items (lsifProvider q))
        then [''lsifReferences''] else []) @
       (if ending (lsifProvider q) = Completes \<and>
           list_ex (\<lambda>b. asArray (of_batch b) \<noteq> []) (items (lsp q))
        then [''lspReferences''] else []) \<and>
     invocations (trace (createReferencesProvider lsifProvider searchProvider (Some lsp) q)) =
       (if ending (lsifProvider q) = Completes then [LsifProvider, LspProvider]
        else [LsifProvider])"
  unfolding L_def
  by (intro conjI references_with_lsp)

theorem protocol_references_concatenated_witness:
  "yielded (trace (createReferencesProvider
      (\<lambda>q. \<lparr>items = [Some [locA]], ending = Completes\<rparr>)
      (\<lambda>q. \<lparr>items = [Some [locC]], ending = Completes\<rparr>)
      (Some (\<lambda>q. \<lparr>items = [Some [], Some [locA, locB], None, Some [locC]], ending = Completes\<rparr>))
      ())) =
     [Some [locA], Some [locA, locA, locB], Some [locA, locC]] \<and>
   emissions (trace (createReferencesProvider
      (\<lambda>q. \<lparr>items = [Some [locA]], ending = Completes\<rparr>)
      (\<lambda>q. \<lparr>items = [Some [locC]], ending = Completes\<rparr>)
      (Some (\<lambda>q. \<lparr>items = [Some [], Some [locA, locB], None, Some [locC]], ending = Completes\<rparr>))
      ())) = [''lsifReferences'', ''lspReferences''] \<and>
   invocations (trace (createReferencesProvider
      (\<lambda>q. \<lparr>items = [Some [locA]], ending = Completes\<rparr>)
      (\<lambda>q. \<lparr>items = [Some [locC]], ending = Completes\<rparr>)
      (Some (\<lambda>q. \<lparr>items = [Some [], Some [locA, locB], None, Some [locC]], ending = Completes\<rparr>))
      ())) = [LsifProvider, LspProvider]"
  using protocol_references_concatenated[of
      "\<lambda>q. \<lparr>items = [Some [locA]], ending = Completes\<rparr>"
      "\<lambda>q. \<lparr>items = [Some [locC]], ending = Completes\<rparr>"
      "\<lambda>q. \<lparr>items = [Some [], Some [locA, locB], None, Some [locC]], ending = Completes\<rparr>"
      "()"]
  by (simp add: last_nonempty_batch_def)

text \<open>
  Claim C2.  With no LSP (protocol) backend configured, the references composer first
  yields the non-empty LSIF batches; once the LSIF backend has completed it calls the
  search backend.  From each search batch it removes the locations whose \<^verbatim>\<open>file\<close>
  fingerprint (host, path and fragment) is the fingerprint of a location of the precise
  results, which are the most recent non-empty LSIF batch; a batch left empty yields
  nothing; every other batch is yielded as the precise results followed by the remaining
  locations with the imprecise badge.  So in every batch yielded on this path, the
  locations that come from the search backend are badged and none of them lies in a file
  of the precise results.
\<close>

theorem heuristic_references_filtered:
  fixes lsifProvider :: "'q \<Rightarrow> location list option async_generator"
  defines "L \<equiv> \<lambda>q. last_nonempty_batch (items (lsifProvider q))"
    and "kept \<equiv> \<lambda>q b. filter (\<lambda>location. file_of location \<notin> set (map file_of
          (last_nonempty_batch (items (lsifProvider q))))) (asArray (of_batch b))"
  shows
    "yielded (trace (createReferencesProvider lsifProvider searchProvider None q)) =
       filter (\<lambda>b. nonEmpty (of_batch b)) (items (lsifProvider q)) @
       (if ending (lsifProvider q) = Completes
        then map (\<lambda>b. Some (L q @ asArray (badgeValues (Many (kept q b)) impreciseBadge)))
               (filter (\<lambda>b. kept q b \<noteq> []) (items (searchProvider q)))
        else []) \<and>
     (\<forall>l \<in> set (asArray (badgeValues (Many (kept q b)) impreciseBadge)).
        file_of l \<notin> set (map file_of (L q)) \<and> loc_badge l = Some impreciseBadge) \<and>
     invocations (trace (createReferencesProvider lsifProvider searchProvider None q)) =
       (if ending (lsifProvider q) = Completes then [LsifProvider, SearchProvider]
        else [LsifProvider])"
proof -
  have "\<forall>l \<in> set (asArray (badgeValues (Many (kept q b)) impreciseBadge)).
        file_of l \<notin> set (map file_of (L q)) \<and> loc_badge l = Some impreciseBadge"
    unfolding kept_def L_def by (auto simp add: badgeValues_def file_of_badged)
  then show ?thesis
    unfolding L_def kept_def
    by (intro conjI references_with_search)
qed

theorem heuristic_references_filtered_witness:
  "yielded (trace (createReferencesProvider
      (\<lambda>q. \<lparr>items = [Some [locA]], ending = Completes\<rparr>)
      (\<lambda>q. \<lparr>items = [Some [locA2], Some [locA2, locB], None], ending = Completes\<rparr>)
      None ())) =
     [Some [locA], Some [locA, locB\<lparr>loc_badge := Some impreciseBadge\<rparr>]] \<and>
   invocations (trace (createReferencesProvider
      (\<lambda>q. \<lparr>items = [Some [locA]], ending = Completes\<rparr>)
      (\<lambda>q. \<lparr>items = [Some [locA2], Some [locA2, locB], None], ending = Completes\<rparr>)
      None ())) = [LsifProvider, SearchProvider]"
  using heuristic_references_filtered[of
      "\<lambda>q. \<lparr>items = [Some [locA]], ending = Completes\<rparr>"
      "\<lambda>q. \<lparr>items = [Some [locA2], Some [locA2, locB], None], ending = Completes\<rparr>"
      "()"]
  by (simp add: last_nonempty_batch_def badgeValues_def file_of_def locA_def locA2_def locB_def)

text \<open>
  Claim C10.  The references composer keeps one variable for the precise results, which
  each non-empty LSIF batch replaces.  So when the most recent non-empty LSIF batch is
  \<open>recent\<close>, whatever the \<open>earlier\<close> batches were, every batch yielded after the LSIF
  backend completed has \<open>recent\<close> alone as its precise prefix, on the LSP path and on the
  search path, and the search path removes exactly the locations in the files of
  \<open>recent\<close>: a location of an earlier batch is not yielded again in the prefix, and a
  search location in the file of an earlier batch only is kept.
\<close>

theorem references_use_most_recent_precise_batch:
  assumes "items (lsifProvider q) = earlier @ [Some recent] @ later"
    and "recent \<noteq> []"
    and "\<forall>b \<in> set later. \<not> nonEmpty (of_batch b)"
    and "ending (lsifProvider q) = Completes"
  shows
    "yielded (trace (createReferencesProvider lsifProvider searchProvider (Some lsp) q)) =
       filter (\<lambda>b. nonEmpty (of_batch b)) earlier @ [Some recent] @
       map (\<lambda>b. Some (recent @ asArray (of_batch b)))
         (filter (\<lambda>b. asArray (of_batch b) \<noteq> []) (items (lsp q))) \<and>
     yielded (trace (createReferencesProvider lsifProvider searchProvider None q)) =
       filter (\<lambda>b. nonEmpty (of_batch b)) earlier @ [Some recent] @
       map (\<lambda>b. Some (recent @ asArray (badgeValues
                  (Many (filter (\<lambda>location. file_of location \<notin> set (map file_of recent))
                     (asArray (of_batch b)))) impreciseBadge)))
         (filter (\<lambda>b. filter (\<lambda>location. file_of location \<notin> set (map file_of recent))
                     (asArray (of_batch b)) \<noteq> []) (items (searchProvider q)))"
proof -
  have L: "last_nonempty_batch (items (lsifProvider q)) = recent"
    unfolding assms(1) by (rule last_nonempty_batch_decomposed[OF assms(2,3)])
  have "filter (\<lambda>b. nonEmpty (of_batch b)) later = []"
    using assms(3) by (simp add: filter_empty_conv)
  then have pre: "filter (\<lambda>b. nonEmpty (of_batch b)) (items (lsifProvider q)) =
      filter (\<lambda>b. nonEmpty (of_batch b)) earlier @ [Some recent]"
    unfolding assms(1) using assms(2) by simp
  show ?thesis
    unfolding references_with_lsp(1) references_with_search(1) L pre
    using assms(4) by simp
qed

theorem references_use_most_recent_precise_batch_witness:
  "[locB] \<noteq> [] \<and> \<not> nonEmpty (of_batch (None :: location list option)) \<and>
   yielded (trace (createReferencesProvider
      (\<lambda>q. \<lparr>items = [Some [locA], Some [locB], None], ending = Completes\<rparr>)
      (\<lambda>q. \<lparr>items = [Some [locA2, locB]], ending = Completes\<rparr>)
      (Some (\<lambda>q. \<lparr>items = [Some [locC]], ending = Completes\<rparr>)) ())) =
     [Some [locA], Some [locB], Some [locB, locC]] \<and>
   yielded (trace (createReferencesProvider
      (\<lambda>q. \<lparr>items = [Some [locA], Some [locB], None], ending = Completes\<rparr>)
      (\<lambda>q. \<lparr>items = [Some [locA2, locB]], ending = Completes\<rparr>)
      None ())) =
     [Some [locA], Some [locB], Some [locB, locA2\<lparr>loc_badge := Some impreciseBadge\<rparr>]]"
  using references_use_most_recent_precise_batch[of
      "\<lambda>q. \<lparr>items = [Some [locA], Some [locB], None], ending = Completes\<rparr>" "()"
      "[Some [locA]]" "[locB]" "[None]"
      "\<lambda>q. \<lparr>items = [Some [locA2, locB]], ending = Completes\<rparr>"
      "\<lambda>q. \<lparr>items = [Some [locC]], ending = Completes\<rparr>"]
  by (simp add: badgeValues_def file_of_def locA_def locA2_def locB_def)

section \<open>The hover composer\<close>

lemma with_alerts_None_first:
  "(case hs of [] \<Rightarrow> [] | h # rest \<Rightarrow> with_alerts h None # rest) = hs"
  by (cases hs) simp_all

text \<open>
  The two last loops of the composer: the pending alert set goes to the first non-null
  value, the following ones are yielded as they are.
\<close>

lemma foldl_hover_body:
  "\<exists>a' r'. foldl (\<lambda>acc x. hover_body n x acc) (a, r) xs = (a', r') \<and>
     yielded (trace r') = yielded (trace r) @
       (case map the (filter (\<lambda>x. x \<noteq> None) xs) of
          [] \<Rightarrow> []
        | h # rest \<Rightarrow> with_alerts h a # rest) \<and>
     emissions (trace r') =
       emissions (trace r) @ (if list_ex (\<lambda>x. x \<noteq> None) xs \<and> n \<notin> fired r then [n] else []) \<and>
     invocations (trace r') = invocations (trace r) \<and>
     fired r' = (if list_ex (\<lambda>x. x \<noteq> None) xs then insert n (fired r) else fired r)"
proof (induction xs arbitrary: a r)
  case Nil
  then show ?case by simp
next
  case (Cons x xs)
  show ?case
  proof (cases x)
    case None
    then show ?thesis using Cons.IH[of a r] by (simp add: hover_body_def)
  next
    case (Some h)
    obtain a' r' where step:
      "foldl (\<lambda>acc x. hover_body n x acc) (None, yield (with_alerts h a) (emitOnce n r)) xs = (a', r')"
      "yielded (trace r') = yielded (trace (yield (with_alerts h a) (emitOnce n r))) @
         (case map the (filter (\<lambda>x. x \<noteq> None) xs) of
            [] \<Rightarrow> []
          | h' # rest \<Rightarrow> with_alerts h' None # rest)"
      "emissions (trace r') = emissions (trace (yield (with_alerts h a) (emitOnce n r))) @
         (if list_ex (\<lambda>x. x \<noteq> None) xs \<and> n \<notin> fired (yield (with_alerts h a) (emitOnce n r))
          then [n] else [])"
      "invocations (trace r') = invocations (trace (yield (with_alerts h a) (emitOnce n r)))"
      "fired r' = (if list_ex (\<lambda>x. x \<noteq> None) xs
          then insert n (fired (yield (with_alerts h a) (emitOnce n r)))
          else fired (yield (with_alerts h a) (emitOnce n r)))"
      using Cons.IH[of None "yield (with_alerts h a) (emitOnce n r)"] by blast
    have "foldl (\<lambda>acc x. hover_body n x acc) (a, r) (x # xs) = (a', r')"
      using step(1) Some by (simp add: hover_body_def)
    moreover have "yielded (trace r') = yielded (trace r) @
       (case map the (filter (\<lambda>x. x \<noteq> None) (x # xs)) of
          [] \<Rightarrow> []
        | h # rest \<Rightarrow> with_alerts h a # rest)"
      using step(2) Some by (simp add: with_alerts_None_first step_simps)
    moreover have "emissions (trace r') =
       emissions (trace r) @
         (if list_ex (\<lambda>x. x \<noteq> None) (x # xs) \<and> n \<notin> fired r then [n] else [])"
      using step(3) Some by (simp add: step_simps)
    moreover have "invocations (trace r') = invocations (trace r)"
      using step(4) by (simp add: step_simps)
    moreover have "fired r' =
       (if list_ex (\<lambda>x. x \<noteq> None) (x # xs) then insert n (fired r) else fired r)"
      using step(5) Some by (simp add: step_simps)
    ultimately show ?thesis by blast
  qed
qed

lemma for_await_last_hover_loop:
  "yielded (trace (for_await b g (hover_body n) (\<lambda>a. return) a r)) =
     yielded (trace r) @
       (case map the (filter (\<lambda>x. x \<noteq> None) (items g)) of
          [] \<Rightarrow> []
        | h # rest \<Rightarrow> with_alerts h a # rest)"
  "emissions (trace (for_await b g (hover_body n) (\<lambda>a. return) a r)) =
     emissions (trace r) @
       (if list_ex (\<lambda>x. x \<noteq> None) (items g) \<and> n \<notin> fired r then [n] else [])"
  "invocations (trace (for_await b g (hover_body n) (\<lambda>a. return) a r)) =
     invocations (trace r) @ [b]"
  "status (for_await b g (hover_body n) (\<lambda>a. return) a r) = ended (ending g)"
proof -
  obtain a' r' where loop:
    "foldl (\<lambda>acc x. hover_body n x acc) (a, invoke b r) (items g) = (a', r')"
    "yielded (trace r') = yielded (trace (invoke b r)) @
       (case map the (filter (\<lambda>x. x \<noteq> None) (items g)) of
          [] \<Rightarrow> []
        | h # rest \<Rightarrow> with_alerts h a # rest)"
    "emissions (trace r') = emissions (trace (invoke b r)) @
       (if list_ex (\<lambda>x. x \<noteq> None) (items g) \<and> n \<notin> fired (invoke b r) then [n] else [])"
    "invocations (trace r') = invocations (trace (invoke b r))"
    using foldl_hover_body[of n a "invoke b r" "items g"] by blast
  have eq: "for_await b g (hover_body n) (\<lambda>a. return) a r =
      (case ending g of Completes \<Rightarrow> return r' | Throws \<Rightarrow> stopped Throws r'
       | Stalls \<Rightarrow> stopped Stalls r')"
    unfolding for_await_def for_of_def loop(1) by simp
  show "yielded (trace (for_await b g (hover_body n) (\<lambda>a. return) a r)) =
     yielded (trace r) @
       (case map the (filter (\<lambda>x. x \<noteq> None) (items g)) of
          [] \<Rightarrow> []
        | h # rest \<Rightarrow> with_alerts h a # rest)"
    unfolding eq using loop(2) by (cases "ending g") (simp_all add: step_simps)
  show "emissions (trace (for_await b g (hover_body n) (\<lambda>a. return) a r)) =
     emissions (trace r) @
       (if list_ex (\<lambda>x. x \<noteq> None) (items g) \<and> n \<notin> fired r then [n] else [])"
    unfolding eq using loop(3) by (cases "ending g") (simp_all add: step_simps)
  show "invocations (trace (for_await b g (hover_body n) (\<lambda>a. return) a r)) =
     invocations (trace r) @ [b]"
    unfolding eq using loop(4) by (cases "ending g") (simp_all add: step_simps)
  show "status (for_await b g (hover_body n) (\<lambda>a. return) a r) = ended (ending g)"
    unfolding eq by (cases "ending g") (simp_all add: step_simps)
qed

text \<open>The composer once the LSIF lookup resolved without a hover text.\<close>

lemma hover_not_precise:
  assumes "lsifProvider q = Resolves w"
    and "case w of None \<Rightarrow> True | Some d \<Rightarrow> dh_hover d = None"
  shows "createHoverProvider lsifSupport lsifProvider searchDefinitionProvider
           searchHoverProvider lspProvider q =
     (case lspProvider of
        Some lsp \<Rightarrow>
          for_await LspProvider (lsp q) (hover_body ''lspHover'')
            (\<lambda>a. return) (Some [HoverAlerts_lsp]) (invoke LsifProvider start)
      | None \<Rightarrow>
          for_await SearchHoverProvider (searchHoverProvider q) (hover_body ''searchHover'')
            (\<lambda>a. return)
            (if (case w of None \<Rightarrow> False | Some d \<Rightarrow> nonEmpty (dh_definition d))
             then Some [HoverAlerts_lsifPartialDefinitionOnly]
             else searchAlerts lsifSupport) (invoke LsifProvider start))"
  using assms(2) unfolding createHoverProvider_def Let_def
  by (cases w) (simp_all add: assms(1))

lemma with_alerts_searchAlerts: "with_alerts h (searchAlerts s) = h\<lparr>alerts := searchAlerts s\<rparr>"
  by (cases s) simp_all

text \<open>
  Claim C6.  When the LSIF (precise) lookup of the hover composer resolves with a hover
  text and without a definition (null or empty), and the search definition backend, which
  the composer then probes, yields some non-empty value, the composer yields exactly one
  value, the LSIF hover text with the alert set \<^verbatim>\<open>[lsifPartialHoverOnly]\<close>; it emits
  \<^verbatim>\<open>lsifHover\<close> (the specification's \<^verbatim>\<open>preciseHover\<close>) once and nothing else; it
  returns after that; and the backends called are the LSIF lookup and the search
  definition probe, so neither the LSP hover backend nor the search hover backend is
  consulted.
\<close>

theorem precise_hover_partial_data:
  assumes "lsifProvider q = Resolves (Some w)"
    and "dh_hover w = Some h"
    and "\<not> nonEmpty (dh_definition w)"
    and "list_ex nonEmpty (items (searchDefinitionProvider q))"
  shows
    "yielded (trace (createHoverProvider lsifSupport lsifProvider searchDefinitionProvider
        searchHoverProvider lspProvider q)) =
       [h\<lparr>alerts := Some [HoverAlerts_lsifPartialHoverOnly]\<rparr>] \<and>
     emissions (trace (createHoverProvider lsifSupport lsifProvider searchDefinitionProvider
        searchHoverProvider lspProvider q)) = [''lsifHover''] \<and>
     invocations (trace (createHoverProvider lsifSupport lsifProvider searchDefinitionProvider
        searchHoverProvider lspProvider q)) = [LsifProvider, SearchDefinitionProvider] \<and>
     status (createHoverProvider lsifSupport lsifProvider searchDefinitionProvider
        searchHoverProvider lspProvider q) = Returned"
  unfolding createHoverProvider_def Let_def
  by (simp add: assms for_await_break_def step_simps)

theorem precise_hover_partial_data_witness:
  "\<not> nonEmpty (dh_definition \<lparr>dh_definition = Many [], dh_hover = Some hoverH\<rparr>) \<and>
   list_ex nonEmpty [Null, Many [locA]] \<and>
   yielded (trace (createHoverProvider LSIFSupport_Robust
      (\<lambda>q. Resolves (Some \<lparr>dh_definition = Many [], dh_hover = Some hoverH\<rparr>))
      (\<lambda>q. \<lparr>items = [Null, Many [locA]], ending = Completes\<rparr>)
      (\<lambda>q. \<lparr>items = [Some hoverK], ending = Completes\<rparr>)
      (Some (\<lambda>q. \<lparr>items = [Some hoverK], ending = Completes\<rparr>)) ())) =
     [\<lparr>contents = ''foo'', alerts = Some [HoverAlerts_lsifPartialHoverOnly]\<rparr>] \<and>
   emissions (trace (createHoverProvider LSIFSupport_Robust
      (\<lambda>q. Resolves (Some \<lparr>dh_definition = Many [], dh_hover = Some hoverH\<rparr>))
      (\<lambda>q. \<lparr>items = [Null, Many [locA]], ending = Completes\<rparr>)
      (\<lambda>q. \<lparr>items = [Some hoverK], ending = Completes\<rparr>)
      (Some (\<lambda>q. \<lparr>items = [Some hoverK], ending = Completes\<rparr>)) ())) = [''lsifHover''] \<and>
   invocations (trace (createHoverProvider LSIFSupport_Robust
      (\<lambda>q. Resolves (Some \<lparr>dh_definition = Many [], dh_hover = Some hoverH\<rparr>))
      (\<lambda>q. \<lparr>items = [Null, Many [locA]], ending = Completes\<rparr>)
      (\<lambda>q. \<lparr>items = [Some hoverK], ending = Completes\<rparr>)
      (Some (\<lambda>q. \<lparr>items = [Some hoverK], ending = Completes\<rparr>)) ())) =
     [LsifProvider, SearchDefinitionProvider]"
  using precise_hover_partial_data[of
      "\<lambda>q. Resolves (Some \<lparr>dh_definition = Many [], dh_hover = Some hoverH\<rparr>)" "()"
      "\<lparr>dh_definition = Many [], dh_hover = Some hoverH\<rparr>" hoverH
      "\<lambda>q. \<lparr>items = [Null, Many [locA]], ending = Completes\<rparr>"
      LSIFSupport_Robust
      "\<lambda>q. \<lparr>items = [Some hoverK], ending = Completes\<rparr>"
      "Some (\<lambda>q. \<lparr>items = [Some hoverK], ending = Completes\<rparr>)"]
  by (simp add: hoverH_def)

text \<open>
  Claim C7, as the code has it.  When the LSIF lookup resolves without a hover text, the
  composer goes through the values of the LSP hover backend if one is configured and of
  the search hover backend otherwise, and yields the non-null ones.  It attaches its
  alert set to the first of them only (the LSP alert on the LSP path; on the search path
  the definition-only notice if LSIF gave a definition, and the alert of the language's
  LSIF support level otherwise).  Every later value is yielded exactly as the backend
  produced it: the composer adds no alerts to it, and it carries alerts only if the
  backend's own value did.
\<close>

theorem hover_alerts_on_first_value_only:
  assumes "lsifProvider q = Resolves w"
    and "case w of None \<Rightarrow> True | Some d \<Rightarrow> dh_hover d = None"
  shows
    "yielded (trace (createHoverProvider lsifSupport lsifProvider searchDefinitionProvider
        searchHoverProvider (Some lsp) q)) =
       (case map the (filter (\<lambda>x. x \<noteq> None) (items (lsp q))) of
          [] \<Rightarrow> []
        | h # rest \<Rightarrow> h\<lparr>alerts := Some [HoverAlerts_lsp]\<rparr> # rest) \<and>
     yielded (trace (createHoverProvider lsifSupport lsifProvider searchDefinitionProvider
        searchHoverProvider None q)) =
       (case map the (filter (\<lambda>x. x \<noteq> None) (items (searchHoverProvider q))) of
          [] \<Rightarrow> []
        | h # rest \<Rightarrow>
            h\<lparr>alerts := (if (case w of None \<Rightarrow> False | Some d \<Rightarrow> nonEmpty (dh_definition d))
                          then Some [HoverAlerts_lsifPartialDefinitionOnly]
                          else searchAlerts lsifSupport)\<rparr> # rest)"
proof -
  note eq = hover_not_precise[where lsifProvider = lsifProvider and q = q, OF assms]
  show ?thesis
    unfolding eq
    by (simp add: for_await_last_hover_loop step_simps with_alerts_searchAlerts
        split: list.splits)
qed

theorem hover_alerts_on_first_value_only_witness:
  "yielded (trace (createHoverProvider LSIFSupport_Experimental
      (\<lambda>q. Resolves (Some \<lparr>dh_definition = Many [locA], dh_hover = None\<rparr>))
      (\<lambda>q. \<lparr>items = [], ending = Completes\<rparr>)
      (\<lambda>q. \<lparr>items = [None, Some hoverH, Some hoverK], ending = Completes\<rparr>)
      (Some (\<lambda>q. \<lparr>items = [Some hoverK, None, Some hoverH], ending = Completes\<rparr>)) ())) =
     [\<lparr>contents = ''bar'', alerts = Some [HoverAlerts_lsp]\<rparr>,
      \<lparr>contents = ''foo'', alerts = None\<rparr>] \<and>
   yielded (trace (createHoverProvider LSIFSupport_Experimental
      (\<lambda>q. Resolves (Some \<lparr>dh_definition = Many [locA], dh_hover = None\<rparr>))
      (\<lambda>q. \<lparr>items = [], ending = Completes\<rparr>)
      (\<lambda>q. \<lparr>items = [None, Some hoverH, Some hoverK], ending = Completes\<rparr>)
      None ())) =
     [\<lparr>contents = ''foo'', alerts = Some [HoverAlerts_lsifPartialDefinitionOnly]\<rparr>,
      \<lparr>contents = ''bar'', alerts = None\<rparr>]"
  using hover_alerts_on_first_value_only[of
      "\<lambda>q. Resolves (Some \<lparr>dh_definition = Many [locA], dh_hover = None\<rparr>)" "()"
      "Some \<lparr>dh_definition = Many [locA], dh_hover = None\<rparr>"
      LSIFSupport_Experimental
      "\<lambda>q. \<lparr>items = [], ending = Completes\<rparr>"
      "\<lambda>q. \<lparr>items = [None, Some hoverH, Some hoverK], ending = Completes\<rparr>"
      "\<lambda>q. \<lparr>items = [Some hoverK, None, Some hoverH], ending = Completes\<rparr>"]
  by (simp add: hoverH_def hoverK_def)

text \<open>
  Claim C7, as it is stated, fails where a backend's own value has alerts.  The search
  hover backend yields a plain hover and then one that already carries the alert set
  \<^verbatim>\<open>[lsif]\<close>; the second value the composer yields still carries it.
\<close>

theorem later_hover_keeps_backend_alerts:
  "alerts (yielded (trace (createHoverProvider LSIFSupport_None
      (\<lambda>q. Resolves None)
      (\<lambda>q. \<lparr>items = [], ending = Completes\<rparr>)
      (\<lambda>q. \<lparr>items = [Some hoverH, Some (hoverK\<lparr>alerts := Some [HoverAlerts_lsif]\<rparr>)],
              ending = Completes\<rparr>)
      None ())) ! 1) = Some [HoverAlerts_lsif]"
proof -
  have "createHoverProvider LSIFSupport_None
      (\<lambda>q. Resolves None)
      (\<lambda>q. \<lparr>items = [], ending = Completes\<rparr>)
      (\<lambda>q. \<lparr>items = [Some hoverH, Some (hoverK\<lparr>alerts := Some [HoverAlerts_lsif]\<rparr>)],
              ending = Completes\<rparr>)
      None () =
    for_await SearchHoverProvider
      \<lparr>items = [Some hoverH, Some (hoverK\<lparr>alerts := Some [HoverAlerts_lsif]\<rparr>)],
       ending = Completes\<rparr>
      (hover_body ''searchHover'') (\<lambda>a. return) (Some [HoverAlerts_searchLSIFSupportNone])
      (invoke LsifProvider start)"
    using hover_not_precise[of "\<lambda>q. Resolves None" "()" None LSIFSupport_None
        "\<lambda>q. \<lparr>items = [], ending = Completes\<rparr>"
        "\<lambda>q. \<lparr>items = [Some hoverH, Some (hoverK\<lparr>alerts := Some [HoverAlerts_lsif]\<rparr>)],
              ending = Completes\<rparr>" None]
    by simp
  then show ?thesis
    by (simp add: for_await_last_hover_loop step_simps)
qed

section \<open>The document highlight composer\<close>

text \<open>
  Claim C9.  The document highlight composer calls the LSIF (precise) backend and no
  other: it yields every non-null batch of that backend, in order and unchanged (an
  empty array included), and drops the null ones; it emits
  \<^verbatim>\<open>lsifDocumentHighlight\<close> (the specification's \<^verbatim>\<open>preciseDocumentHighlights\<close>)
  once, with the first non-null batch, and nothing else; and whatever LSP and search
  backends are supplied, neither is ever called.
\<close>

theorem document_highlights_precise_only:
  fixes lsifProvider :: "'q \<Rightarrow> 'h list option async_generator"
  shows
  "yielded (trace (createDocumentHighlightProvider lsifProvider searchProvider lspProvider q)) =
     filter (\<lambda>b. b \<noteq> None) (items (lsifProvider q)) \<and>
   emissions (trace (createDocumentHighlightProvider lsifProvider searchProvider lspProvider q)) =
     (if list_ex (\<lambda>b. b \<noteq> None) (items (lsifProvider q))
      then [''lsifDocumentHighlight''] else []) \<and>
   invocations (trace (createDocumentHighlightProvider lsifProvider searchProvider lspProvider q)) =
     [LsifProvider] \<and>
   status (createDocumentHighlightProvider lsifProvider searchProvider lspProvider q) =
     ended (ending (lsifProvider q))"
proof -
  let ?body = "\<lambda>lsifResult (u :: unit, r :: 'h list option run).
          case lsifResult of
            Some hs \<Rightarrow> (u, yield lsifResult (emitOnce ''lsifDocumentHighlight'' r))
          | None \<Rightarrow> (u, r)"
  have body: "?body = (\<lambda>x (l, r). if (\<lambda>b. b \<noteq> None) x
      then ((\<lambda>x l. l) x l, yield ((\<lambda>x. x) x) (emitOnce ''lsifDocumentHighlight'' r))
      else (l, r))"
    by (auto simp add: fun_eq_iff split: option.splits)
  note loop = for_await_last_filter_loop[OF body, of LsifProvider "lsifProvider q" "()" start]
  show ?thesis
    unfolding createDocumentHighlightProvider_def
    using loop by (simp add: step_simps)
qed

theorem document_highlights_precise_only_witness:
  "yielded (trace (createDocumentHighlightProvider
      (\<lambda>q. \<lparr>items = [None, Some [1 :: nat, 2], Some [], Some [3]], ending = Completes\<rparr>)
      (\<lambda>q. \<lparr>items = [Some [4]], ending = Completes\<rparr>)
      (Some (\<lambda>q. \<lparr>items = [Some [5]], ending = Completes\<rparr>)) ())) =
     [Some [1, 2], Some [], Some [3]] \<and>
   emissions (trace (createDocumentHighlightProvider
      (\<lambda>q. \<lparr>items = [None, Some [1 :: nat, 2], Some [], Some [3]], ending = Completes\<rparr>)
      (\<lambda>q. \<lparr>items = [Some [4]], ending = Completes\<rparr>)
      (Some (\<lambda>q. \<lparr>items = [Some [5]], ending = Completes\<rparr>)) ())) =
     [''lsifDocumentHighlight''] \<and>
   invocations (trace (createDocumentHighlightProvider
      (\<lambda>q. \<lparr>items = [None, Some [1 :: nat, 2], Some [], Some [3]], ending = Completes\<rparr>)
      (\<lambda>q. \<lparr>items = [Some [4]], ending = Completes\<rparr>)
      (Some (\<lambda>q. \<lparr>items = [Some [5]], ending = Completes\<rparr>)) ())) = [LsifProvider]"
  using document_highlights_precise_only[of
      "\<lambda>q. \<lparr>items = [None, Some [1 :: nat, 2], Some [], Some [3]], ending = Completes\<rparr>"
      "\<lambda>q. \<lparr>items = [Some [4]], ending = Completes\<rparr>"
      "Some (\<lambda>q. \<lparr>items = [Some [5]], ending = Completes\<rparr>)" "()"]
  by simp

section \<open>The reconfiguration controller re-registers on tracked changes only\<close>

text \<open>
  While the controller is subscribed, the handle of the last registration is the only
  one not disposed, and the stored snapshot agrees with the last snapshot received on the
  tracked fields.
\<close>

lemma reregisterOnChange_invariant:
  fixes trackedFields :: "'k list" and snapshot :: "'k \<Rightarrow> 'v" and later :: "('k \<Rightarrow> 'v) list"
    and c :: "('k, 'v) controller"
  defines "c \<equiv> reregisterOnChange trackedFields snapshot later"
  shows "subscribed c \<and> registered c \<noteq> [] \<and>
         current c = Some (length (registered c) - 1) \<and>
         disposed c = [0..<length (registered c) - 1] \<and>
         (\<forall>k \<in> set trackedFields. previous c k = last (snapshot # later) k)"
  unfolding c_def
proof (induction later rule: rev_induct)
  case Nil
  then show ?case by (simp add: reregisterOnChange_def subscribe_def)
next
  case (snoc s later)
  let ?c = "reregisterOnChange trackedFields snapshot later"
  have step: "reregisterOnChange trackedFields snapshot (later @ [s]) =
      on_snapshot trackedFields s ?c"
    by (simp add: reregisterOnChange_def)
  show ?case
  proof (cases "list_all (\<lambda>k. s k = previous ?c k) trackedFields")
    case True
    then have "on_snapshot trackedFields s ?c = ?c"
      by (simp add: on_snapshot_def)
    moreover have "\<forall>k \<in> set trackedFields. previous ?c k = s k"
      using True by (simp add: list_all_iff)
    ultimately show ?thesis
      unfolding step using snoc.IH by simp
  next
    case False
    obtain n where n: "length (registered ?c) = Suc n"
      using snoc.IH by (cases "registered ?c") simp_all
    show ?thesis
      unfolding step using False snoc.IH n
      by (simp add: on_snapshot_def)
  qed
qed

lemma tracked_equal_iff:
  "list_all (\<lambda>k. s k = previous (reregisterOnChange trackedFields snapshot later) k) trackedFields =
   list_all (\<lambda>k. s k = last (snapshot # later) k) trackedFields"
  using reregisterOnChange_invariant[of trackedFields snapshot later]
  by (simp add: list_all_iff)

lemma active_last:
  assumes "disposed c = [0..<n]" and "length (registered c) = Suc n"
  shows "active c = [n]"
  unfolding active_def assms by simp

text \<open>
  Claim C8.  Let the controller have been subscribed with the tracked fields \<open>F\<close> and have
  received the snapshots \<open>later\<close>, the last snapshot being \<open>prev\<close>.  A new snapshot equal
  to \<open>prev\<close> on every field of \<open>F\<close> causes no call of the registration callback and no
  disposal.  A new snapshot that differs from \<open>prev\<close> on some field of \<open>F\<close> causes exactly
  one call, with the whole new snapshot, and exactly one disposal, of the handle that was
  active, and the new handle becomes the active one.  At any time exactly one handle, the
  last one registered, is not disposed.  Disposing the controller disposes that handle,
  once; then no handle remains active, and no handle has been disposed twice.
\<close>

theorem reregister_on_tracked_change_only:
  fixes F :: "'k list" and snapshot :: "'k \<Rightarrow> 'v" and later :: "('k \<Rightarrow> 'v) list"
    and new :: "'k \<Rightarrow> 'v" and c :: "('k, 'v) controller" and prev :: "'k \<Rightarrow> 'v"
  defines "c \<equiv> reregisterOnChange F snapshot later"
    and "prev \<equiv> last (snapshot # later)"
  shows
    "(list_all (\<lambda>k. new k = prev k) F \<longrightarrow>
        registered (on_snapshot F new c) = registered c \<and>
        disposed (on_snapshot F new c) = disposed c \<and>
        current (on_snapshot F new c) = current c) \<and>
     (\<not> list_all (\<lambda>k. new k = prev k) F \<longrightarrow>
        registered (on_snapshot F new c) = registered c @ [new] \<and>
        disposed (on_snapshot F new c) = disposed c @ [length (registered c) - 1] \<and>
        current (on_snapshot F new c) = Some (length (registered c))) \<and>
     active c = [length (registered c) - 1] \<and>
     disposed (dispose c) = disposed c @ [length (registered c) - 1] \<and>
     active (dispose c) = [] \<and>
     distinct (disposed (dispose c))"
proof -
  note inv = reregisterOnChange_invariant[of F snapshot later, folded c_def]
  have eq: "list_all (\<lambda>k. new k = previous c k) F = list_all (\<lambda>k. new k = prev k) F"
    unfolding c_def prev_def by (rule tracked_equal_iff)
  obtain n where n: "length (registered c) = Suc n"
    using inv by (cases "registered c") simp_all
  have same: "list_all (\<lambda>k. new k = prev k) F \<Longrightarrow> on_snapshot F new c = c"
    using eq by (simp add: on_snapshot_def)
  have changed: "\<not> list_all (\<lambda>k. new k = prev k) F \<Longrightarrow>
      on_snapshot F new c =
        c\<lparr>disposed := disposed c @ [n], current := Some (Suc n),
          registered := registered c @ [new], previous := new\<rparr>"
    using eq inv n by (simp add: on_snapshot_def)
  have act: "active c = [n]"
    using inv n by (intro active_last) simp_all
  have disp: "disposed (dispose c) = [0..<Suc n]"
    using inv n by (simp add: dispose_def)
  have none: "active (dispose c) = []"
    unfolding active_def disp using n by (simp add: dispose_def)
  show ?thesis
    using same changed act disp none inv n by simp
qed

theorem reregister_on_tracked_change_only_witness:
  "list_all (\<lambda>k. settings ''foo'' [] [] k = settings ''foo'' [] [] k) [''foo''] \<and>
   \<not> list_all (\<lambda>k. settings ''baz'' [] [] k = settings ''bar'' [] [] k) [''foo''] \<and>
   registered (reregisterOnChange [''foo''] (settings ''foo'' [] [])
      [settings ''foo'' [] [], settings ''bar'' [] [], settings ''baz'' [] []]) =
     [settings ''foo'' [] [], settings ''bar'' [] [], settings ''baz'' [] []] \<and>
   disposed (reregisterOnChange [''foo''] (settings ''foo'' [] [])
      [settings ''foo'' [] [], settings ''bar'' [] [], settings ''baz'' [] []]) = [0, 1] \<and>
   active (reregisterOnChange [''foo''] (settings ''foo'' [] [])
      [settings ''foo'' [] [], settings ''bar'' [] [], settings ''baz'' [] []]) = [2] \<and>
   disposed (dispose (reregisterOnChange [''foo''] (settings ''foo'' [] [])
      [settings ''foo'' [] [], settings ''bar'' [] [], settings ''baz'' [] []])) = [0, 1, 2]"
proof -
  let ?s1 = "settings ''foo'' [] []" and ?s2 = "settings ''bar'' [] []"
    and ?s3 = "settings ''baz'' [] []"
  have run: "reregisterOnChange [''foo''] ?s1 [?s1, ?s2, ?s3] =
      on_snapshot [''foo''] ?s3 (reregisterOnChange [''foo''] ?s1 [?s1, ?s2])"
    "reregisterOnChange [''foo''] ?s1 [?s1, ?s2] =
      on_snapshot [''foo''] ?s2 (reregisterOnChange [''foo''] ?s1 [?s1])"
    "reregisterOnChange [''foo''] ?s1 [?s1] =
      on_snapshot [''foo''] ?s1 (reregisterOnChange [''foo''] ?s1 [])"
    by (simp_all add: reregisterOnChange_def)
  have same: "list_all (\<lambda>k. ?s1 k = ?s1 k) [''foo'']"
    by simp
  have diff2: "\<not> list_all (\<lambda>k. ?s2 k = ?s1 k) [''foo'']"
    and diff3: "\<not> list_all (\<lambda>k. ?s3 k = ?s2 k) [''foo'']"
    by (simp_all add: settings_def)
  have r0: "registered (reregisterOnChange [''foo''] ?s1 []) = [?s1]"
    "disposed (reregisterOnChange [''foo''] ?s1 []) = []"
    by (simp_all add: reregisterOnChange_def subscribe_def)
  have r1: "registered (reregisterOnChange [''foo''] ?s1 [?s1]) = [?s1]"
    "disposed (reregisterOnChange [''foo''] ?s1 [?s1]) = []"
    using reregister_on_tracked_change_only[of ?s1 ?s1 "[]" "[''foo'']"] same r0
    unfolding run(3) by simp_all
  have r2: "registered (reregisterOnChange [''foo''] ?s1 [?s1, ?s2]) = [?s1, ?s2]"
    "disposed (reregisterOnChange [''foo''] ?s1 [?s1, ?s2]) = [0]"
    using reregister_on_tracked_change_only[of ?s2 ?s1 "[?s1]" "[''foo'']"] diff2 r1
    unfolding run(2) by simp_all
  have r3: "registered (reregisterOnChange [''foo''] ?s1 [?s1, ?s2, ?s3]) = [?s1, ?s2, ?s3]"
    "disposed (reregisterOnChange [''foo''] ?s1 [?s1, ?s2, ?s3]) = [0, 1]"
    using reregister_on_tracked_change_only[of ?s3 ?s1 "[?s1, ?s2]" "[''foo'']"] diff3 r2
    unfolding run(1) by simp_all
  show ?thesis
    using reregister_on_tracked_change_only[of ?s3 ?s1 "[?s1, ?s2, ?s3]" "[''foo'']"]
      same diff3 r3
    by simp
qed

end
